theory Spec2Isabelle
  imports Main
begin

section \<open>File Scavenger: strings and paths\<close>

text \<open>
  The extension is a single TypeScript module. Strings are modelled as \<open>string\<close>
  (character lists). The functions of this section stand for the JavaScript and
  Node.js library calls the module makes: \<open>String.prototype.includes\<close>,
  \<open>split\<close>/\<open>slice\<close>/\<open>join\<close>, and, for POSIX paths, \<open>path.basename\<close>,
  \<open>path.extname\<close> and \<open>path.join\<close>. Two library functions are not written out
  but taken as parameters by the functions that call them: \<open>JSON.parse\<close> (called
  \<open>parse\<close>) and \<open>String.prototype.toLowerCase\<close> (called \<open>lower\<close>), whose
  case mapping covers every cased character of Unicode.
\<close>

text \<open>\<open>s.startsWith(t)\<close>.\<close>

fun starts_with :: "string \<Rightarrow> string \<Rightarrow> bool" where
  "starts_with s [] = True"
| "starts_with [] (c # t) = False"
| "starts_with (d # s) (c # t) = (d = c \<and> starts_with s t)"

text \<open>\<open>content.includes(t)\<close>: \<open>t\<close> occurs in \<open>content\<close> at some offset.\<close>

fun str_includes :: "string \<Rightarrow> string \<Rightarrow> bool" where
  "str_includes [] t = (t = [])"
| "str_includes (c # s) t = (starts_with (c # s) t \<or> str_includes s t)"

text \<open>\<open>s.split('.')\<close>: the pieces between the dots; never the empty array.\<close>

fun split_dot :: "string \<Rightarrow> string list" where
  "split_dot [] = [[]]"
| "split_dot (c # s) =
     (if c = CHR ''.'' then [] # split_dot s
      else (case split_dot s of p # ps \<Rightarrow> (c # p) # ps | [] \<Rightarrow> [[c]]))"

text \<open>\<open>parts.join('.')\<close>.\<close>

fun join_dot :: "string list \<Rightarrow> string" where
  "join_dot [] = []"
| "join_dot [p] = p"
| "join_dot (p # q # ps) = p @ CHR ''.'' # join_dot (q # ps)"

text \<open>\<open>fileName.split('.').slice(0, -1).join('.')\<close>, the name without its extension.\<close>

definition fileNameWithoutExtension :: "string \<Rightarrow> string" where
  "fileNameWithoutExtension fileName = join_dot (butlast (split_dot fileName))"

text \<open>
  \<open>path.basename(p)\<close>: trailing separators are dropped, then the part after the
  last remaining separator is taken.
\<close>

definition basename :: "string \<Rightarrow> string" where
  "basename p =
     rev (takeWhile (\<lambda>c. c \<noteq> CHR ''/'') (dropWhile (\<lambda>c. c = CHR ''/'') (rev p)))"

text \<open>
  \<open>path.extname(p)\<close>: from the last dot of the last path component to its end;
  empty when that component has no dot, when its only dot is its first character,
  and when it is \<open>..\<close>.
\<close>

definition extname :: "string \<Rightarrow> string" where
  "extname p =
     (let b = basename p;
          ext = rev (takeWhile (\<lambda>c. c \<noteq> CHR ''.'') (rev b));
          pre = rev (drop 1 (dropWhile (\<lambda>c. c \<noteq> CHR ''.'') (rev b)))
      in if CHR ''.'' \<notin> set b \<or> pre = [] \<or> b = ''..'' then [] else CHR ''.'' # ext)"

text \<open>
  \<open>path.join(dirPath, name)\<close> as the walker calls it: \<open>dirPath\<close> is a normalised
  directory path and \<open>name\<close> a directory entry name (not empty, without a
  separator, neither \<open>.\<close> nor \<open>..\<close>), so that normalisation has nothing to
  rewrite and the two are joined by one separator.
\<close>

definition path_join :: "string \<Rightarrow> string \<Rightarrow> string" where
  "path_join dirPath name =
     (if dirPath = [] then name
      else if last dirPath = CHR ''/'' then dirPath @ name
      else dirPath @ CHR ''/'' # name)"

section \<open>The file system\<close>

text \<open>
  What the module sees of the disk: a directory holds entries; an entry is a
  directory (\<open>item.isDirectory()\<close> holds) or anything else, a file. Each has its
  name (\<open>item.name\<close>). A file whose content is \<open>None\<close> cannot be read
  (\<open>readFile\<close> throws), a directory whose listing is \<open>None\<close> cannot be listed
  (\<open>readdir\<close> throws).
\<close>

datatype fs_entry =
    File string "string option"
  | Dir string "fs_entry list option"

text \<open>Every entry below a directory, with its full path, in listing order.\<close>

fun all_entries :: "string \<Rightarrow> fs_entry list \<Rightarrow> (string \<times> fs_entry) list" where
  "all_entries dirPath [] = []"
| "all_entries dirPath (File n c # items) =
     (path_join dirPath n, File n c) # all_entries dirPath items"
| "all_entries dirPath (Dir n None # items) =
     (path_join dirPath n, Dir n None) # all_entries dirPath items"
| "all_entries dirPath (Dir n (Some sub) # items) =
     (path_join dirPath n, Dir n (Some sub)) # all_entries (path_join dirPath n) sub
       @ all_entries dirPath items"

text \<open>
  \<open>fs.existsSync(p)\<close> and \<open>readFile(p, 'utf-8')\<close> for paths below the
  workspace folder \<open>root\<close> whose listing is \<open>listing\<close>. Reading anything but a
  readable file throws.
\<close>

datatype js_error = TypeError | SyntaxError | IOError

definition lookup_path :: "string \<Rightarrow> fs_entry list option \<Rightarrow> string \<Rightarrow> fs_entry option" where
  "lookup_path root listing p =
     (case listing of None \<Rightarrow> None | Some items \<Rightarrow> map_of (all_entries root items) p)"

definition existsSync :: "string \<Rightarrow> fs_entry list option \<Rightarrow> string \<Rightarrow> bool" where
  "existsSync root listing p = (lookup_path root listing p \<noteq> None)"

definition readFile :: "string \<Rightarrow> fs_entry list option \<Rightarrow> string \<Rightarrow> js_error + string" where
  "readFile root listing p =
     (case lookup_path root listing p of
        Some (File n (Some content)) \<Rightarrow> Inr content
      | _ \<Rightarrow> Inl IOError)"

section \<open>Configuration\<close>

text \<open>
  The value \<open>JSON.parse\<close> returns. An object is the list of its properties, each
  key once. The numeric value of a number plays no role in the module.
\<close>

datatype json =
    JNull
  | JBool bool
  | JNum int
  | JStr string
  | JArr "json list"
  | JObj "(string \<times> json) list"

text \<open>
  \<open>v.includes(s)\<close> for a string \<open>s\<close>: membership for an array, substring search
  for a string; any other value has no such method and the call throws a
  \<open>TypeError\<close>.
\<close>

fun js_includes :: "json \<Rightarrow> string \<Rightarrow> js_error + bool" where
  "js_includes (JArr xs) s = Inr (JStr s \<in> set xs)"
| "js_includes (JStr t) s = Inr (str_includes t s)"
| "js_includes v s = Inl TypeError"

text \<open>
  The configuration object, as far as the module reads it. The values are whatever
  the user's file holds under these keys, of any JSON type.
\<close>

record config =
  fileTypes :: json
  ignoreFolders :: json
  ignoreRootFiles :: json

definition strs :: "string list \<Rightarrow> json" where
  "strs xs = JArr (map JStr xs)"

definition defaultConfig :: config where
  "defaultConfig = \<lparr>
     fileTypes = strs [''.js'', ''.ts'', ''.jsx'', ''.tsx'', ''.css'', ''.scss'', ''.less'',
       ''.html'', ''.htm'', ''.json'', ''.xml'', ''.yml'', ''.yaml'', ''.png'', ''.jpg'',
       ''.jpeg'', ''.svg'', ''.gif'', ''.bmp'', ''.ico'', ''.webp'', ''.mp4'', ''.mp3'', ''.wav'',
       ''.ogg'', ''.pdf'', ''.md'', ''.txt'', ''.csv'', ''.sql'', ''.sh'', ''.bat'', ''.ps1'',
       ''.py'', ''.rb'', ''.php'', ''.java'', ''.cpp'', ''.c'', ''.h'', ''.go'', ''.rs'',
       ''.swift'', ''.kt'', ''.dart'', ''.lua'', ''.pl'', ''.r'', ''.hs'', ''.scala'', ''.clj'',
       ''.elm'', ''.erl'', ''.ex'', ''.fs'', ''.groovy'', ''.jl'', ''.nim'', ''.pde'', ''.v'',
       ''.vb'', ''.vbs'', ''.zig''],
     ignoreFolders = strs [''node_modules'', ''.git'', ''dist'', ''build'', ''out'', ''bin'',
       ''obj'', ''vendor'', ''logs'', ''temp''],
     ignoreRootFiles = strs [''README.md'', ''package.json'', ''package-lock.json'',
       ''tsconfig.json'', ''webpack.config.js'', ''.gitignore'', ''.env'', ''.env.local'',
       ''docker-compose.yml'', ''Makefile'', ''Procfile''] \<rparr>"

text \<open>
  The properties an object spread \<open>...v\<close> copies, as far as they can reach the three
  keys above: those of an object. (An array or a string spreads index keys only,
  \<open>null\<close>, a boolean and a number spread nothing.)
\<close>

fun own_props :: "json \<Rightarrow> (string \<times> json) list" where
  "own_props (JObj kvs) = kvs"
| "own_props v = []"

definition spread_key :: "string \<Rightarrow> json \<Rightarrow> json \<Rightarrow> json" where
  "spread_key k dflt userConfig =
     (case map_of (own_props userConfig) k of Some v \<Rightarrow> v | None \<Rightarrow> dflt)"

text \<open>\<open>{ ...defaultConfig, ...userConfig }\<close>.\<close>

definition spread :: "config \<Rightarrow> json \<Rightarrow> config" where
  "spread d userConfig = \<lparr>
     fileTypes = spread_key ''fileTypes'' (fileTypes d) userConfig,
     ignoreFolders = spread_key ''ignoreFolders'' (ignoreFolders d) userConfig,
     ignoreRootFiles = spread_key ''ignoreRootFiles'' (ignoreRootFiles d) userConfig \<rparr>"

text \<open>
  The body of the \<open>try\<close> block of \<open>readConfigFile\<close>; \<open>parse\<close> is \<open>JSON.parse\<close>,
  with \<open>None\<close> for a \<open>SyntaxError\<close>.
\<close>

definition readConfigFile_try ::
  "(string \<Rightarrow> json option) \<Rightarrow> string \<Rightarrow> fs_entry list option \<Rightarrow> string \<Rightarrow> js_error + config" where
  "readConfigFile_try parse workspacePath listing configPath =
     (case readFile workspacePath listing configPath of
        Inl e \<Rightarrow> Inl e
      | Inr text \<Rightarrow>
          (case parse text of
             None \<Rightarrow> Inl SyntaxError
           | Some userConfig \<Rightarrow> Inr (spread defaultConfig userConfig)))"

definition readConfigFile ::
  "(string \<Rightarrow> json option) \<Rightarrow> string \<Rightarrow> fs_entry list option \<Rightarrow> config" where
  "readConfigFile parse workspacePath listing =
     (let configPath = path_join workspacePath ''.filescavengerrc'' in
      if \<not> existsSync workspacePath listing configPath then defaultConfig
      else (case readConfigFile_try parse workspacePath listing configPath of
              Inl e \<Rightarrow> defaultConfig
            | Inr c \<Rightarrow> c))"

section \<open>The tree walker\<close>

text \<open>
  \<open>getAllFiles\<close>: \<open>getAllFiles_loop\<close> is the \<open>for\<close> loop over the directory's
  items with the accumulator \<open>files\<close>. An exception inside the \<open>try\<close> block (a
  failing \<open>readdir\<close>, an \<open>includes\<close> that throws) ends the loop, and the function
  returns what \<open>files\<close> holds by then.
\<close>

fun getAllFiles :: "string \<Rightarrow> json \<Rightarrow> json \<Rightarrow> fs_entry list option \<Rightarrow> string list"
  and getAllFiles_loop ::
    "string \<Rightarrow> json \<Rightarrow> json \<Rightarrow> fs_entry list \<Rightarrow> string list \<Rightarrow> string list" where
  "getAllFiles dirPath igF igR None = []"
| "getAllFiles dirPath igF igR (Some items) = getAllFiles_loop dirPath igF igR items []"
| "getAllFiles_loop dirPath igF igR [] files = files"
| "getAllFiles_loop dirPath igF igR (Dir n l # items) files =
     (case js_includes igF n of
        Inl e \<Rightarrow> files
      | Inr True \<Rightarrow> getAllFiles_loop dirPath igF igR items files
      | Inr False \<Rightarrow>
          getAllFiles_loop dirPath igF igR items
            (files @ getAllFiles (path_join dirPath n) igF igR l))"
| "getAllFiles_loop dirPath igF igR (File n c # items) files =
     (case js_includes igR n of
        Inl e \<Rightarrow> files
      | Inr True \<Rightarrow> getAllFiles_loop dirPath igF igR items files
      | Inr False \<Rightarrow>
          getAllFiles_loop dirPath igF igR items (files @ [path_join dirPath n]))"

section \<open>The reference heuristic\<close>

text \<open>
  The override store is the extension's \<open>globalState\<close> memento; the commands only
  ever store booleans in it. \<open>get_override m file\<close> is
  \<open>userOverrides.get<boolean>(file, false)\<close>.
\<close>

type_synonym memento = "string \<rightharpoonup> bool"

definition get_override :: "memento \<Rightarrow> string \<Rightarrow> bool" where
  "get_override m key = (case m key of Some b \<Rightarrow> b | None \<Rightarrow> False)"

text \<open>
  The cancellation token. The module only ever polls it, and a request is never
  withdrawn, so the token is the number of polls that still answer "not requested"
  (\<open>None\<close>: the user never cancels). Polling returns the answer and the token as
  it is afterwards.
\<close>

type_synonym token = "nat option"

fun isCancellationRequested :: "token \<Rightarrow> bool \<times> token" where
  "isCancellationRequested None = (False, None)"
| "isCancellationRequested (Some 0) = (True, Some 0)"
| "isCancellationRequested (Some (Suc k)) = (False, Some k)"

text \<open>
  The inner loop of \<open>findUnusedFiles\<close> over \<open>otherFile\<close>, returning \<open>isUsed\<close>.
  \<open>rf\<close> reads a file; a read that throws is caught and the loop goes on.
\<close>

fun isUsed_loop :: "(string \<Rightarrow> js_error + string) \<Rightarrow> string \<Rightarrow> string list \<Rightarrow> bool" where
  "isUsed_loop rf file [] = False"
| "isUsed_loop rf file (otherFile # others) =
     (if otherFile = file then isUsed_loop rf file others
      else (case rf otherFile of
              Inl e \<Rightarrow> isUsed_loop rf file others
            | Inr content \<Rightarrow>
                if str_includes content (basename file) then True
                else if str_includes content (fileNameWithoutExtension (basename file)) then True
                else isUsed_loop rf file others))"

text \<open>
  The outer loop over \<open>file\<close>, with the accumulator \<open>unusedFiles\<close>; \<open>trackedFiles\<close>
  is the whole argument list, which the inner loop runs over.
\<close>

fun findUnusedFiles_loop ::
  "(string \<Rightarrow> js_error + string) \<Rightarrow> string list \<Rightarrow> memento \<Rightarrow> string list \<Rightarrow> token \<Rightarrow> string list
     \<Rightarrow> string list \<times> token" where
  "findUnusedFiles_loop rf trackedFiles userOverrides [] tok unused = (unused, tok)"
| "findUnusedFiles_loop rf trackedFiles userOverrides (file # rest) tok unused =
     (case isCancellationRequested tok of
        (True, tok') \<Rightarrow> (unused, tok')
      | (False, tok') \<Rightarrow>
          if get_override userOverrides file
          then findUnusedFiles_loop rf trackedFiles userOverrides rest tok' unused
          else if \<not> isUsed_loop rf file trackedFiles
          then findUnusedFiles_loop rf trackedFiles userOverrides rest tok' (unused @ [file])
          else findUnusedFiles_loop rf trackedFiles userOverrides rest tok' unused)"

text \<open>
  \<open>findUnusedFiles(trackedFiles, workspacePath, userOverrides, token)\<close>. The
  function never reads \<open>workspacePath\<close>, nor the \<open>fileMap\<close> it builds first.
\<close>

definition findUnusedFiles ::
  "(string \<Rightarrow> js_error + string) \<Rightarrow> string list \<Rightarrow> string \<Rightarrow> memento \<Rightarrow> token
     \<Rightarrow> string list \<times> token" where
  "findUnusedFiles rf trackedFiles workspacePath userOverrides tok =
     findUnusedFiles_loop rf trackedFiles userOverrides trackedFiles tok []"

section \<open>The extension: state and commands\<close>

text \<open>
  The state \<open>activate\<close> sets up: the list the tree view provider holds, the set the
  decoration provider holds, and the override store, emptied on activation.
\<close>

record ext_state =
  provider_unusedFiles :: "string list"
  decoration_unusedFiles :: "string set"
  overrides :: memento

definition activate :: ext_state where
  "activate = \<lparr> provider_unusedFiles = [], decoration_unusedFiles = {}, overrides = Map.empty \<rparr>"

text \<open>\<open>unusedFileProvider.refresh(l)\<close> followed by \<open>updateUnusedFiles(l)\<close>.\<close>

definition publish :: "string list \<Rightarrow> ext_state \<Rightarrow> ext_state" where
  "publish l s = s\<lparr> provider_unusedFiles := l, decoration_unusedFiles := set l \<rparr>"

text \<open>The message the scan command ends with.\<close>

datatype notification =
    NoWorkspaceFolder
  | ScanCanceled
  | ScanComplete nat
  | ScanError

definition batchSize :: nat where
  "batchSize = 100"

text \<open>\<open>xs.slice(a, b)\<close> for \<open>0 \<le> a \<le> b\<close>.\<close>

definition slice :: "'a list \<Rightarrow> nat \<Rightarrow> nat \<Rightarrow> 'a list" where
  "slice xs a b = take (b - a) (drop a xs)"

text \<open>
  \<open>allFiles.filter(file => config.fileTypes.includes(path.extname(file).toLowerCase()))\<close>;
  the first \<open>includes\<close> that throws ends the filter. \<open>lower\<close> is
  \<open>toLowerCase\<close>.
\<close>

fun filter_tracked ::
  "(string \<Rightarrow> string) \<Rightarrow> json \<Rightarrow> string list \<Rightarrow> js_error + string list" where
  "filter_tracked lower ft [] = Inr []"
| "filter_tracked lower ft (file # rest) =
     (case js_includes ft (lower (extname file)) of
        Inl e \<Rightarrow> Inl e
      | Inr b \<Rightarrow>
          (case filter_tracked lower ft rest of
             Inl e \<Rightarrow> Inl e
           | Inr r \<Rightarrow> Inr (if b then file # r else r)))"

text \<open>
  The batch loop of the scan command, from index \<open>i\<close> with the accumulator
  \<open>unusedFiles\<close>. \<open>None\<close> is the \<open>return\<close> on cancellation. (The progress
  report has no effect on the result and is left out.)
\<close>

function scan_loop ::
  "(string \<Rightarrow> js_error + string) \<Rightarrow> string \<Rightarrow> memento \<Rightarrow> string list \<Rightarrow> nat \<Rightarrow> token
     \<Rightarrow> string list \<Rightarrow> string list option" where
  "scan_loop rf workspacePath userOverrides trackedFiles i tok unused =
     (if i < length trackedFiles then
        (case isCancellationRequested tok of
           (True, tok') \<Rightarrow> None
         | (False, tok') \<Rightarrow>
             (let batch = slice trackedFiles i (i + batchSize);
                  (batchUnusedFiles, tok'') =
                     findUnusedFiles rf batch workspacePath userOverrides tok'
              in scan_loop rf workspacePath userOverrides trackedFiles (i + batchSize) tok''
                   (unused @ batchUnusedFiles)))
      else Some unused)"
  by pat_completeness auto
termination
  by (relation "measure (\<lambda>(rf, w, ov, tr, i, tok, un). length tr - i)")
     (auto simp: batchSize_def)

text \<open>
  The command \<open>extension.highlightUnusedFiles\<close>. \<open>workspace\<close> is the first
  workspace folder, its path and its listing, if there is one.
\<close>

definition highlightUnusedFiles ::
  "(string \<Rightarrow> json option) \<Rightarrow> (string \<Rightarrow> string)
     \<Rightarrow> (string \<times> fs_entry list option) option \<Rightarrow> token \<Rightarrow> ext_state
     \<Rightarrow> notification \<times> ext_state" where
  "highlightUnusedFiles parse lower workspace tok s =
     (case workspace of
        None \<Rightarrow> (NoWorkspaceFolder, s)
      | Some (workspacePath, listing) \<Rightarrow>
          (let cfg = readConfigFile parse workspacePath listing;
               allFiles = getAllFiles workspacePath (ignoreFolders cfg) (ignoreRootFiles cfg) listing
           in case filter_tracked lower (fileTypes cfg) allFiles of
                Inl e \<Rightarrow> (ScanError, s)
              | Inr trackedFiles \<Rightarrow>
                  (case scan_loop (readFile workspacePath listing) workspacePath (overrides s)
                          trackedFiles 0 tok [] of
                     None \<Rightarrow> (ScanCanceled, s)
                   | Some unused \<Rightarrow> (ScanComplete (length unused), publish unused s))))"

text \<open>
  \<open>extension.toggleFileStatus\<close> and \<open>extension.resetFileState\<close>. Both republish
  the list the provider holds (the toggle once more after a delay of 800 ms, which
  changes nothing further).
\<close>

definition toggleFileStatus :: "string \<Rightarrow> ext_state \<Rightarrow> ext_state" where
  "toggleFileStatus filePath s =
     (let isMarkedAsUsed = get_override (overrides s) filePath;
          s' = s\<lparr> overrides := (overrides s)(filePath \<mapsto> \<not> isMarkedAsUsed) \<rparr>
      in publish (provider_unusedFiles s') s')"

definition resetFileState :: "string \<Rightarrow> ext_state \<Rightarrow> ext_state" where
  "resetFileState filePath s =
     (let s' = s\<lparr> overrides := (overrides s)(filePath := None) \<rparr>
      in publish (provider_unusedFiles s') s')"

text \<open>The handler of \<open>fileWatcher.onDidDelete\<close>.\<close>

definition onDidDelete :: "string \<Rightarrow> ext_state \<Rightarrow> ext_state" where
  "onDidDelete deletedFilePath s =
     publish (filter (\<lambda>file. file \<noteq> deletedFilePath) (provider_unusedFiles s)) s"

text \<open>
  \<open>UnusedFileProvider.getChildren\<close>: the items of the tree view, each a path with
  its \<open>isMarkedAsUsed\<close> flag.
\<close>

definition getChildren :: "ext_state \<Rightarrow> (string \<times> bool) list" where
  "getChildren s =
     (let filteredUnusedFiles =
            filter (\<lambda>file. \<not> get_override (overrides s) file) (provider_unusedFiles s)
      in map (\<lambda>file. (file, get_override (overrides s) file)) filteredUnusedFiles)"

text \<open>\<open>UnusedFileDecorationProvider.provideFileDecoration\<close>: the badge of a path.\<close>

datatype decoration = UsedFile | UnusedFile

definition provideFileDecoration :: "ext_state \<Rightarrow> string \<Rightarrow> decoration option" where
  "provideFileDecoration s fsPath =
     (if fsPath \<in> decoration_unusedFiles s then
        (if get_override (overrides s) fsPath then Some UsedFile else Some UnusedFile)
      else None)"

section \<open>Notions the properties are stated with\<close>

text \<open>
  \<open>otherFile\<close> mentions \<open>file\<close>: it can be read and its content holds the base
  name of \<open>file\<close>, or that name without its extension. This is the test the inner
  loop of \<open>findUnusedFiles\<close> makes on each other file.
\<close>

definition mentions :: "(string \<Rightarrow> js_error + string) \<Rightarrow> string \<Rightarrow> string \<Rightarrow> bool" where
  "mentions rf otherFile file =
     (case rf otherFile of
        Inl e \<Rightarrow> False
      | Inr content \<Rightarrow>
          str_includes content (basename file)
          \<or> str_includes content (fileNameWithoutExtension (basename file)))"

text \<open>The files of a list whose poll of the token still answers "not requested".\<close>

definition polled :: "token \<Rightarrow> string list \<Rightarrow> string list" where
  "polled tok files = (case tok of None \<Rightarrow> files | Some k \<Rightarrow> take k files)"

text \<open>The tracked files the scan command computes before it starts its batches.\<close>

definition scan_trackedFiles ::
  "(string \<Rightarrow> json option) \<Rightarrow> (string \<Rightarrow> string) \<Rightarrow> string \<Rightarrow> fs_entry list option
     \<Rightarrow> js_error + string list" where
  "scan_trackedFiles parse lower workspacePath listing =
     (let cfg = readConfigFile parse workspacePath listing
      in filter_tracked lower (fileTypes cfg)
           (getAllFiles workspacePath (ignoreFolders cfg) (ignoreRootFiles cfg) listing))"

text \<open>
  What the host can make the extension do after activation: run the scan command,
  the toggle command, the reset command, or report a deleted file.
\<close>

datatype event =
    Scan "string \<Rightarrow> json option" "string \<Rightarrow> string"
      "(string \<times> fs_entry list option) option" token
  | Toggle string
  | Reset string
  | Delete string

fun step :: "ext_state \<Rightarrow> event \<Rightarrow> ext_state" where
  "step s (Scan parse lower workspace tok) =
     snd (highlightUnusedFiles parse lower workspace tok s)"
| "step s (Toggle filePath) = toggleFileStatus filePath s"
| "step s (Reset filePath) = resetFileState filePath s"
| "step s (Delete filePath) = onDidDelete filePath s"

text \<open>
  The names \<open>readdir\<close> can return: not empty, without a separator, and neither
  \<open>.\<close> nor \<open>..\<close>. A tree is valid when all its entries have such names.
\<close>

definition valid_name :: "string \<Rightarrow> bool" where
  "valid_name n = (n \<noteq> [] \<and> CHR ''/'' \<notin> set n \<and> n \<noteq> ''.'' \<and> n \<noteq> ''..'')"

fun valid_tree :: "fs_entry list \<Rightarrow> bool" where
  "valid_tree [] = True"
| "valid_tree (File n c # items) = (valid_name n \<and> valid_tree items)"
| "valid_tree (Dir n None # items) = (valid_name n \<and> valid_tree items)"
| "valid_tree (Dir n (Some sub) # items) = (valid_name n \<and> valid_tree sub \<and> valid_tree items)"

text \<open>
  Every file below a directory, whatever the configuration ignores: the names of
  the directories that lead to it, outermost first, and its own name.
\<close>

fun files_below :: "fs_entry list \<Rightarrow> (string list \<times> string) list" where
  "files_below [] = []"
| "files_below (File n c # items) = ([], n) # files_below items"
| "files_below (Dir n None # items) = files_below items"
| "files_below (Dir n (Some sub) # items) =
     map (\<lambda>(ds, f). (n # ds, f)) (files_below sub) @ files_below items"

text \<open>The full path of such a file, as repeated \<open>path.join\<close> builds it.\<close>

definition path_of :: "string \<Rightarrow> string list \<times> string \<Rightarrow> string" where
  "path_of dirPath occ = foldl path_join dirPath (fst occ @ [snd occ])"

text \<open>Auxiliary: a directory path ready for a name, and the tail of a joined path.\<close>

definition with_sep :: "string \<Rightarrow> string" where
  "with_sep d = (if d = [] then [] else if last d = CHR ''/'' then d else d @ ''/'')"

definition tail_of :: "string list \<Rightarrow> string" where
  "tail_of ns = concat (map (\<lambda>n. CHR ''/'' # n) ns)"

text \<open>
  \<open>reached\<close>: the walker can produce \<open>p\<close> from these items, that is, \<open>p\<close> is the
  path of a file that is not ignored and lies below directories that are not
  ignored. \<open>occurs_unignored\<close> names that file.
\<close>

fun reached :: "json \<Rightarrow> json \<Rightarrow> string \<Rightarrow> fs_entry list \<Rightarrow> string \<Rightarrow> bool" where
  "reached igF igR d [] p = False"
| "reached igF igR d (File n c # items) p =
     ((p = path_join d n \<and> js_includes igR n = Inr False) \<or> reached igF igR d items p)"
| "reached igF igR d (Dir n None # items) p = reached igF igR d items p"
| "reached igF igR d (Dir n (Some sub) # items) p =
     ((js_includes igF n = Inr False \<and> reached igF igR (path_join d n) sub p)
      \<or> reached igF igR d items p)"

definition occurs_unignored ::
  "json \<Rightarrow> json \<Rightarrow> string \<Rightarrow> fs_entry list \<Rightarrow> string \<Rightarrow> string list \<Rightarrow> string \<Rightarrow> bool" where
  "occurs_unignored igF igR d items p ds f \<longleftrightarrow>
     (ds, f) \<in> set (files_below items) \<and> p = path_of d (ds, f)
     \<and> (\<forall>e\<in>set ds. js_includes igF e = Inr False) \<and> js_includes igR f = Inr False"

section \<open>Example workspaces\<close>

text \<open>
  The workspace of the specification's example: \<open>a.ts\<close> and \<open>c.ts\<close> are empty,
  \<open>b.ts\<close> imports \<open>./a\<close>, and the configuration file tracks \<open>.ts\<close> only and
  ignores nothing. \<open>example_parse\<close> is \<open>JSON.parse\<close> on the one text the examples
  hand to it.
\<close>

definition example_config_text :: string where
  \<open>example_config_text =
     ''{"fileTypes": [".ts"], "ignoreFolders": [], "ignoreRootFiles": []}''\<close>

definition example_config :: json where
  "example_config =
     JObj [(''fileTypes'', JArr [JStr ''.ts'']), (''ignoreFolders'', JArr []),
           (''ignoreRootFiles'', JArr [])]"

definition example_parse :: "string \<Rightarrow> json option" where
  "example_parse text = (if text = example_config_text then Some example_config else None)"

text \<open>
  \<open>example_lower\<close> is \<open>toLowerCase\<close> on the texts the examples hand to it: they
  are ASCII, where lowering maps \<open>A\<close> to \<open>Z\<close> onto \<open>a\<close> to \<open>z\<close> and leaves
  every other character as it is.
\<close>

definition example_lower_char :: "char \<Rightarrow> char" where
  "example_lower_char c =
     (let n = (of_char c :: nat) in if 65 \<le> n \<and> n \<le> 90 then char_of (n + 32) else c)"

definition example_lower :: "string \<Rightarrow> string" where
  "example_lower s = map example_lower_char s"

definition example_b_content :: string where
  \<open>example_b_content = ''import "./a"''\<close>

definition example_listing :: "fs_entry list option" where
  "example_listing =
     Some [File ''.filescavengerrc'' (Some example_config_text),
           File ''a.ts'' (Some []),
           File ''b.ts'' (Some example_b_content),
           File ''c.ts'' (Some [])]"

text \<open>
  A workspace of 101 tracked files and no configuration file: \<open>a.ts\<close>, which
  imports \<open>./z.ts\<close>, then the empty files \<open>f01.ts\<close> to \<open>f99.ts\<close>, then the empty
  \<open>z.ts\<close>. \<open>big_tracked\<close> are their paths below \<open>/w\<close>.
\<close>

definition big_a_content :: string where
  \<open>big_a_content = ''import "./z.ts"''\<close>

definition big_names :: "string list" where
  "big_names =
     tl (map (\<lambda>(x, y). [CHR ''f'', x, y] @ ''.ts'') (List.product ''0123456789'' ''0123456789''))"

definition big_listing :: "fs_entry list option" where
  "big_listing =
     Some (File ''a.ts'' (Some big_a_content)
           # map (\<lambda>n. File n (Some [])) big_names @ [File ''z.ts'' (Some [])])"

definition big_tracked :: "string list" where
  "big_tracked = map (path_join ''/w'') (''a.ts'' # big_names @ [''z.ts''])"

text \<open>
  A workspace with a folder named \<open>vendor\<close> at the top and another one inside
  \<open>src\<close>, and a \<open>README.md\<close> inside \<open>src\<close>.
\<close>

definition nested_listing :: "fs_entry list" where
  "nested_listing =
     [Dir ''vendor'' (Some [File ''x.ts'' (Some [])]),
      Dir ''src'' (Some [File ''y.ts'' (Some []),
                         File ''README.md'' (Some []),
                         Dir ''vendor'' (Some [File ''deep.ts'' (Some [])])])]"

section \<open>Substring search\<close>

text \<open>\<open>str_includes\<close> is verbatim occurrence as a contiguous part.\<close>

lemma starts_with_iff: "starts_with s t \<longleftrightarrow> (\<exists>ss. s = t @ ss)"
  by (induction s t rule: starts_with.induct) auto

lemma str_includes_iff: "str_includes s t \<longleftrightarrow> (\<exists>ps ss. s = ps @ t @ ss)"
proof (induction s)
  case Nil
  then show ?case by simp
next
  case (Cons c s)
  show ?case
  proof
    assume "str_includes (c # s) t"
    then consider "starts_with (c # s) t" | "str_includes s t" by auto
    then show "\<exists>ps ss. c # s = ps @ t @ ss"
    proof cases
      case 1
      then obtain ss where "c # s = t @ ss" by (auto simp: starts_with_iff)
      then have "c # s = [] @ t @ ss" by simp
      then show ?thesis by blast
    next
      case 2
      then obtain ps ss where "s = ps @ t @ ss" using Cons.IH by blast
      then have "c # s = (c # ps) @ t @ ss" by simp
      then show ?thesis by blast
    qed
  next
    assume "\<exists>ps ss. c # s = ps @ t @ ss"
    then obtain ps ss where e: "c # s = ps @ t @ ss" by blast
    show "str_includes (c # s) t"
    proof (cases ps)
      case Nil
      with e have "starts_with (c # s) t" by (auto simp: starts_with_iff)
      then show ?thesis by simp
    next
      case (Cons a ps')
      with e have "s = ps' @ t @ ss" by simp
      then have "str_includes s t" using Cons.IH by blast
      then show ?thesis by simp
    qed
  qed
qed

section \<open>Facts about the reference heuristic\<close>

declare scan_loop.simps [simp del]

lemma isUsed_loop_iff:
  "isUsed_loop rf file others \<longleftrightarrow> (\<exists>g \<in> set others. g \<noteq> file \<and> mentions rf g file)"
  by (induction others) (auto simp: mentions_def split: sum.splits)

lemma findUnusedFiles_loop_None:
  "findUnusedFiles_loop rf tr ov files None unused =
     (unused @ filter (\<lambda>f. \<not> get_override ov f \<and> \<not> isUsed_loop rf f tr) files, None)"
  by (induction files arbitrary: unused) auto

lemma findUnusedFiles_loop_Some:
  "findUnusedFiles_loop rf tr ov files (Some k) unused =
     (unused @ filter (\<lambda>f. \<not> get_override ov f \<and> \<not> isUsed_loop rf f tr) (take k files),
      Some (k - length files))"
proof (induction files arbitrary: unused k)
  case Nil
  then show ?case by simp
next
  case (Cons f files)
  show ?case
  proof (cases k)
    case 0
    then show ?thesis by simp
  next
    case (Suc j)
    then show ?thesis using Cons.IH [of j] by simp
  qed
qed

lemma findUnusedFiles_pair:
  "findUnusedFiles rf batch ws ov tok =
     (filter (\<lambda>f. \<not> get_override ov f \<and> \<not> isUsed_loop rf f batch) (polled tok batch),
      case tok of None \<Rightarrow> None | Some k \<Rightarrow> Some (k - length batch))"
  by (cases tok)
     (simp_all add: findUnusedFiles_def polled_def findUnusedFiles_loop_None
        findUnusedFiles_loop_Some)

lemma findUnusedFiles_fst:
  "fst (findUnusedFiles rf batch ws ov tok) =
     filter (\<lambda>f. \<not> get_override ov f \<and> \<not> isUsed_loop rf f batch) (polled tok batch)"
  by (cases tok)
     (simp_all add: findUnusedFiles_def polled_def findUnusedFiles_loop_None
        findUnusedFiles_loop_Some)

lemma filter_neq_removeAll: "filter (\<lambda>x. x \<noteq> p) xs = removeAll p xs"
  by (induction xs) auto

section \<open>Facts about the batch loop\<close>

lemma length_slice: "length (slice xs i (i + n)) = min n (length xs - i)"
  by (simp add: slice_def)

lemma scan_loop_done: "length tr \<le> i \<Longrightarrow> scan_loop rf ws ov tr i tok unused = Some unused"
  by (simp add: scan_loop.simps)

lemma scan_loop_cancel_now:
  "i < length tr \<Longrightarrow> scan_loop rf ws ov tr i (Some 0) unused = None"
  by (simp add: scan_loop.simps)

lemma scan_loop_step_Some:
  "i < length tr \<Longrightarrow>
     scan_loop rf ws ov tr i (Some (Suc j)) unused =
       scan_loop rf ws ov tr (i + batchSize)
         (Some (j - length (slice tr i (i + batchSize))))
         (unused @ fst (findUnusedFiles rf (slice tr i (i + batchSize)) ws ov (Some j)))"
  by (simp add: scan_loop.simps [of rf ws ov tr i] findUnusedFiles_pair Let_def)

lemma scan_loop_step_None:
  "i < length tr \<Longrightarrow>
     scan_loop rf ws ov tr i None unused =
       scan_loop rf ws ov tr (i + batchSize) None
         (unused @ fst (findUnusedFiles rf (slice tr i (i + batchSize)) ws ov None))"
  by (simp add: scan_loop.simps [of rf ws ov tr i] findUnusedFiles_pair Let_def)

lemma scan_loop_canceled:
  "i < length tr \<Longrightarrow> k \<le> (batchSize + 1) * ((length tr - i - 1) div batchSize) \<Longrightarrow>
     scan_loop rf ws ov tr i (Some k) unused = None"
proof (induction "length tr - i" arbitrary: i k unused rule: less_induct)
  case less
  show ?case
  proof (cases k)
    case 0
    then show ?thesis using less.prems(1) by (simp add: scan_loop_cancel_now)
  next
    case (Suc j)
    let ?q = "(length tr - i - 1) div batchSize"
    have q: "1 \<le> ?q"
    proof (rule ccontr)
      assume "\<not> 1 \<le> ?q"
      then have "?q = 0" by simp
      with less.prems(2) Suc show False by simp
    qed
    then have big: "batchSize \<le> length tr - i - 1"
      by (metis One_nat_def div_greater_zero_iff less_eq_Suc_le)
    then have nxt: "i + batchSize < length tr" by (simp add: batchSize_def)
    have len: "length (slice tr i (i + batchSize)) = batchSize"
      using big by (simp add: length_slice)
    have q': "(length tr - (i + batchSize) - 1) div batchSize = ?q - 1"
    proof -
      have "length tr - (i + batchSize) - 1 = (length tr - i - 1) - batchSize" by simp
      then show ?thesis using big by (simp add: batchSize_def le_div_geq)
    qed
    have "j - batchSize \<le> (batchSize + 1) * (?q - 1)"
    proof -
      from q obtain q0 where q0: "?q = Suc q0" by (cases ?q) auto
      have "Suc j \<le> (batchSize + 1) * Suc q0" using less.prems(2) Suc q0 by simp
      then have "j - batchSize \<le> (batchSize + 1) * q0" by simp
      then show ?thesis using q0 by simp
    qed
    then have bound:
      "j - batchSize \<le> (batchSize + 1) * ((length tr - (i + batchSize) - 1) div batchSize)"
      using q' by simp
    have dec: "length tr - (i + batchSize) < length tr - i"
      using nxt by (simp add: batchSize_def)
    have "scan_loop rf ws ov tr (i + batchSize) (Some (j - batchSize))
        (unused @ fst (findUnusedFiles rf (slice tr i (i + batchSize)) ws ov (Some j))) = None"
      by (rule less.hyps [OF dec nxt bound])
    then show ?thesis using Suc less.prems(1) len by (simp add: scan_loop_step_Some)
  qed
qed

lemma findUnusedFiles_single:
  "\<not> get_override ov file \<Longrightarrow> fst (findUnusedFiles rf [file] ws ov None) = [file]"
  by (simp add: findUnusedFiles_def)

lemma scan_loop_final_singleton:
  "i < length tr \<Longrightarrow> (length tr - i) mod batchSize = 1 \<Longrightarrow> \<not> get_override ov (last tr) \<Longrightarrow>
     \<exists>r. scan_loop rf ws ov tr i None unused = Some (r @ [last tr])"
proof (induction "length tr - i" arbitrary: i unused rule: less_induct)
  case less
  show ?case
  proof (cases "length tr - i = 1")
    case True
    then have "length (drop i tr) = 1" by simp
    then obtain x where x: "drop i tr = [x]" by (cases "drop i tr") auto
    have "tr = take i tr @ [x]" using x by (metis append_take_drop_id)
    then have "last tr = x" by (metis last_snoc)
    then have b: "slice tr i (i + batchSize) = [last tr]"
      using x by (simp add: slice_def batchSize_def)
    have "length tr \<le> i + batchSize" using True by (simp add: batchSize_def)
    then show ?thesis
      using less.prems b by (simp add: scan_loop_step_None scan_loop_done findUnusedFiles_single)
  next
    case False
    have "batchSize < length tr - i"
    proof (rule ccontr)
      assume "\<not> batchSize < length tr - i"
      then have "length tr - i \<le> batchSize" by simp
      then have "length tr - i = batchSize \<or> length tr - i < batchSize" by arith
      then show False using less.prems(2) False by (auto simp: batchSize_def)
    qed
    then have nxt: "i + batchSize < length tr" by simp
    have "(length tr - (i + batchSize)) mod batchSize = 1"
    proof -
      have "length tr - i = (length tr - (i + batchSize)) + batchSize" using nxt by simp
      then show ?thesis using less.prems(2) by (metis mod_add_self2)
    qed
    then obtain r where
      "scan_loop rf ws ov tr (i + batchSize) None
         (unused @ fst (findUnusedFiles rf (slice tr i (i + batchSize)) ws ov None))
       = Some (r @ [last tr])"
      using less.hyps [of "i + batchSize"] nxt less.prems(1,3)
      by (metis diff_less_mono2 less_add_same_cancel1 batchSize_def zero_less_numeral)
    then show ?thesis using less.prems(1) by (simp add: scan_loop_step_None)
  qed
qed

lemma scan_loop_elems:
  "scan_loop rf ws ov tr i tok unused = Some r \<Longrightarrow>
     \<forall>f\<in>set r. f \<in> set unused \<or> \<not> get_override ov f"
proof (induction rf ws ov tr i tok unused rule: scan_loop.induct)
  case (1 rf ws ov tr i tok unused)
  show ?case
  proof (cases "i < length tr")
    case False
    with "1.prems" show ?thesis by (simp add: scan_loop.simps)
  next
    case True
    obtain c tok' where p: "isCancellationRequested tok = (c, tok')" by (cases "isCancellationRequested tok")
    show ?thesis
    proof (cases c)
      case True
      with \<open>i < length tr\<close> p "1.prems" show ?thesis by (simp add: scan_loop.simps)
    next
      case False
      obtain bu tok'' where fu:
        "findUnusedFiles rf (slice tr i (i + batchSize)) ws ov tok' = (bu, tok'')"
        by (cases "findUnusedFiles rf (slice tr i (i + batchSize)) ws ov tok'")
      have nxt: "scan_loop rf ws ov tr (i + batchSize) tok'' (unused @ bu) = Some r"
        using "1.prems" \<open>i < length tr\<close> p False fu by (simp add: scan_loop.simps [of rf ws ov tr i])
      have p': "(False, tok') = isCancellationRequested tok" using p False by simp
      have "\<forall>f\<in>set r. f \<in> set (unused @ bu) \<or> \<not> get_override ov f"
        by (rule "1.IH" [OF \<open>i < length tr\<close> p' refl refl refl fu [symmetric] nxt])
      moreover have "\<forall>f\<in>set bu. \<not> get_override ov f"
        using findUnusedFiles_fst [of rf "slice tr i (i + batchSize)" ws ov tok'] fu by auto
      ultimately show ?thesis by auto
    qed
  qed
qed

lemma highlight_overrides: "overrides (snd (highlightUnusedFiles parse lower w tok s)) = overrides s"
  by (auto simp: highlightUnusedFiles_def publish_def Let_def split: option.splits sum.splits)

lemma highlight_complete_elems:
  "highlightUnusedFiles parse lower w tok s = (ScanComplete n, s') \<Longrightarrow>
     \<forall>f\<in>set (provider_unusedFiles s'). \<not> get_override (overrides s) f"
  by (auto simp: highlightUnusedFiles_def publish_def Let_def
        split: option.splits sum.splits dest!: scan_loop_elems)

lemma step_keeps_override:
  "e \<noteq> Toggle p \<Longrightarrow> e \<noteq> Reset p \<Longrightarrow> get_override (overrides (step s e)) p = get_override (overrides s) p"
  by (cases e)
     (auto simp: highlight_overrides toggleFileStatus_def resetFileState_def onDidDelete_def
        publish_def get_override_def Let_def)

lemma run_keeps_override:
  "\<forall>e\<in>set events. e \<noteq> Toggle p \<and> e \<noteq> Reset p \<Longrightarrow>
     get_override (overrides (foldl step s events)) p = get_override (overrides s) p"
  by (induction events arbitrary: s) (simp_all add: step_keeps_override)

lemma readFile_exists: "readFile ws listing p = Inr text \<Longrightarrow> existsSync ws listing p"
  by (auto simp: readFile_def existsSync_def split: option.splits)

section \<open>Facts about paths and the walker\<close>

lemma path_join_with_sep: "path_join d n = with_sep d @ n"
  by (simp add: path_join_def with_sep_def)

lemma foldl_path_join_tail:
  "x \<noteq> [] \<Longrightarrow> last x \<noteq> CHR ''/'' \<Longrightarrow> \<forall>n\<in>set ns. valid_name n \<Longrightarrow>
     foldl path_join x ns = x @ tail_of ns"
proof (induction ns arbitrary: x)
  case Nil
  then show ?case by (simp add: tail_of_def)
next
  case (Cons n ns)
  from Cons.prems have vn: "n \<noteq> []" "CHR ''/'' \<notin> set n" by (auto simp: valid_name_def)
  have j: "path_join x n = x @ CHR ''/'' # n"
    using Cons.prems by (simp add: path_join_def)
  have "last (path_join x n) = last n" using vn j by simp
  then have l: "last (path_join x n) \<noteq> CHR ''/''" using vn by (metis last_in_set)
  have "foldl path_join (path_join x n) ns = path_join x n @ tail_of ns"
    using Cons.IH [of "path_join x n"] l j Cons.prems by simp
  then show ?case using j by (simp add: tail_of_def)
qed

lemma foldl_path_join_chain:
  assumes "valid_name n" "\<forall>m\<in>set ns. valid_name m"
  shows "foldl path_join d (n # ns) = with_sep d @ n @ tail_of ns"
proof -
  from assms have vn: "n \<noteq> []" "CHR ''/'' \<notin> set n" by (auto simp: valid_name_def)
  have "last (with_sep d @ n) = last n" using vn by simp
  then have "last (with_sep d @ n) \<noteq> CHR ''/''" using vn by (metis last_in_set)
  moreover have "with_sep d @ n \<noteq> []" using vn by simp
  ultimately have "foldl path_join (with_sep d @ n) ns = (with_sep d @ n) @ tail_of ns"
    using foldl_path_join_tail assms(2) by blast
  then show ?thesis by (simp add: path_join_with_sep)
qed

lemma name_then_tail_inj:
  assumes "CHR ''/'' \<notin> set n" "CHR ''/'' \<notin> set m"
    and "n @ tail_of ns = m @ tail_of ms"
  shows "n = m \<and> tail_of ns = tail_of ms"
proof -
  have t: "\<And>k ks. CHR ''/'' \<notin> set k \<Longrightarrow> takeWhile (\<lambda>c. c \<noteq> CHR ''/'') (k @ tail_of ks) = k"
  proof -
    fix k :: string and ks
    assume k: "CHR ''/'' \<notin> set k"
    show "takeWhile (\<lambda>c. c \<noteq> CHR ''/'') (k @ tail_of ks) = k"
    proof (cases ks)
      case Nil
      then show ?thesis using k by (auto simp: tail_of_def)
    next
      case (Cons a as)
      then have "tail_of ks = CHR ''/'' # a @ tail_of as" by (simp add: tail_of_def)
      then show ?thesis using k by (subst takeWhile_append2) auto
    qed
  qed
  have "n = takeWhile (\<lambda>c. c \<noteq> CHR ''/'') (n @ tail_of ns)" using t assms(1) by simp
  also have "\<dots> = takeWhile (\<lambda>c. c \<noteq> CHR ''/'') (m @ tail_of ms)" using assms(3) by simp
  also have "\<dots> = m" using t assms(2) by simp
  finally have "n = m" .
  then show ?thesis using assms(3) by simp
qed

lemma tail_of_inj:
  "\<forall>n\<in>set ns. CHR ''/'' \<notin> set n \<Longrightarrow> \<forall>m\<in>set ms. CHR ''/'' \<notin> set m \<Longrightarrow>
     tail_of ns = tail_of ms \<Longrightarrow> ns = ms"
proof (induction ns arbitrary: ms)
  case Nil
  then show ?case by (cases ms) (auto simp: tail_of_def)
next
  case (Cons n ns)
  show ?case
  proof (cases ms)
    case Nil
    with Cons.prems show ?thesis by (simp add: tail_of_def)
  next
    case (Cons m ms')
    with Cons.prems have "n @ tail_of ns = m @ tail_of ms'" by (simp add: tail_of_def)
    moreover have "CHR ''/'' \<notin> set n" "CHR ''/'' \<notin> set m" using Cons.prems Cons by auto
    ultimately have "n = m \<and> tail_of ns = tail_of ms'" using name_then_tail_inj by blast
    moreover have "\<forall>k\<in>set ms'. CHR ''/'' \<notin> set k" using Cons.prems Cons by auto
    ultimately show ?thesis using Cons.IH [of ms'] Cons.prems(1) Cons by simp
  qed
qed

lemma path_of_inj:
  assumes "\<forall>n\<in>set (ds @ [f]). valid_name n" "\<forall>n\<in>set (es @ [g]). valid_name n"
    and "path_of d (ds, f) = path_of d (es, g)"
  shows "ds = es \<and> f = g"
proof -
  obtain n ns where a: "ds @ [f] = n # ns" by (cases "ds @ [f]") auto
  obtain m ms where b: "es @ [g] = m # ms" by (cases "es @ [g]") auto
  have va: "valid_name n" "\<forall>k\<in>set ns. valid_name k" using assms(1) a by auto
  have vb: "valid_name m" "\<forall>k\<in>set ms. valid_name k" using assms(2) b by auto
  have "with_sep d @ n @ tail_of ns = with_sep d @ m @ tail_of ms"
    using assms(3) a b foldl_path_join_chain [OF va] foldl_path_join_chain [OF vb]
    by (simp add: path_of_def)
  then have "n @ tail_of ns = m @ tail_of ms" by simp
  moreover have "CHR ''/'' \<notin> set n" "CHR ''/'' \<notin> set m"
    using va vb by (auto simp: valid_name_def)
  ultimately have nm: "n = m" "tail_of ns = tail_of ms" using name_then_tail_inj by blast+
  have "ns = ms"
    using tail_of_inj [OF _ _ nm(2)] va(2) vb(2) by (auto simp: valid_name_def)
  with nm(1) a b have "ds @ [f] = es @ [g]" by simp
  then show ?thesis by simp
qed

lemma files_below_valid:
  "valid_tree items \<Longrightarrow> (ds, f) \<in> set (files_below items) \<Longrightarrow>
     (\<forall>n\<in>set (ds @ [f]). valid_name n)"
  by (induction items arbitrary: ds f rule: files_below.induct) auto

lemma path_of_Cons: "path_of d (n # ds, f) = path_of (path_join d n) (ds, f)"
  by (simp add: path_of_def)

lemma path_of_Nil: "path_of d ([], f) = path_join d f"
  by (simp add: path_of_def)

lemma occurs_here:
  "js_includes igR n = Inr False \<Longrightarrow>
     occurs_unignored igF igR d (File n c # items) (path_join d n) [] n"
  by (simp add: occurs_unignored_def path_of_Nil)

lemma occurs_later:
  "occurs_unignored igF igR d (e # items) p ds f" if "occurs_unignored igF igR d items p ds f"
proof (cases e)
  case (File n c)
  then show ?thesis using that by (simp add: occurs_unignored_def)
next
  case (Dir n l)
  then show ?thesis using that by (cases l) (auto simp: occurs_unignored_def)
qed

lemma occurs_deeper:
  "js_includes igF n = Inr False \<Longrightarrow> occurs_unignored igF igR (path_join d n) sub p ds f \<Longrightarrow>
     occurs_unignored igF igR d (Dir n (Some sub) # items) p (n # ds) f"
  by (auto simp: occurs_unignored_def path_of_Cons)

lemma reached_occurs:
  "reached igF igR d items p \<Longrightarrow> \<exists>ds f. occurs_unignored igF igR d items p ds f"
proof (induction igF igR d items p rule: reached.induct)
  case (1 igF igR d p)
  then show ?case by simp
next
  case (2 igF igR d n c items p)
  then show ?case using occurs_here occurs_later by (metis reached.simps(2))
next
  case (3 igF igR d n items p)
  then show ?case using occurs_later by (metis reached.simps(3))
next
  case (4 igF igR d n sub items p)
  then show ?case using occurs_deeper occurs_later by (metis reached.simps(4))
qed

lemma walker_reached:
  "p \<in> set (getAllFiles dirPath igF igR listing) \<Longrightarrow>
     (\<exists>items. listing = Some items \<and> reached igF igR dirPath items p)"
  "p \<in> set (getAllFiles_loop dirPath igF igR items files) \<Longrightarrow>
     p \<in> set files \<or> reached igF igR dirPath items p"
proof (induction dirPath igF igR listing and dirPath igF igR items files
        rule: getAllFiles_getAllFiles_loop.induct)
  case (1 dirPath igF igR)
  then show ?case by simp
next
  case (2 dirPath igF igR items)
  then show ?case by simp
next
  case (3 dirPath igF igR files)
  then show ?case by simp
next
  case (4 dirPath igF igR n l items files)
  show ?case
  proof (cases "js_includes igF n")
    case (Inl e)
    with 4 show ?thesis by simp
  next
    case (Inr b)
    show ?thesis
    proof (cases b)
      case True
      with 4 Inr have "p \<in> set files \<or> reached igF igR dirPath items p" by simp
      then show ?thesis by (cases l) auto
    next
      case False
      with 4 Inr have
        "p \<in> set (files @ getAllFiles (path_join dirPath n) igF igR l)
           \<or> reached igF igR dirPath items p" by simp
      moreover have "p \<in> set (getAllFiles (path_join dirPath n) igF igR l) \<Longrightarrow>
          \<exists>sub. l = Some sub \<and> reached igF igR (path_join dirPath n) sub p"
        using 4 Inr False by simp
      ultimately show ?thesis using Inr False
        by (cases l) auto
    qed
  qed
next
  case (5 dirPath igF igR n c items files)
  show ?case
  proof (cases "js_includes igR n")
    case (Inl e)
    with 5 show ?thesis by simp
  next
    case (Inr b)
    with 5 show ?thesis by (cases b) auto
  qed
qed

section \<open>The walker and the ignore lists\<close>

text \<open>
  C7. In a valid tree, a file that lies below a directory whose name is an entry
  of \<open>ignoreFolders\<close>, at whatever depth that directory sits, is not among the paths
  the walker returns: the match is on the directory's name alone, and nothing below
  such a directory is listed.
\<close>

theorem ignored_folder_pruned_at_any_depth:
  assumes "valid_tree items"
    and "(ds, f) \<in> set (files_below items)"
    and "d \<in> set ds"
    and "JStr d \<in> set ignored"
  shows "path_of dirPath (ds, f) \<notin> set (getAllFiles dirPath (JArr ignored) igR (Some items))"
proof
  assume "path_of dirPath (ds, f) \<in> set (getAllFiles dirPath (JArr ignored) igR (Some items))"
  then have "reached (JArr ignored) igR dirPath items (path_of dirPath (ds, f))"
    using walker_reached(1) by blast
  then obtain es g where r: "(es, g) \<in> set (files_below items)"
      "path_of dirPath (ds, f) = path_of dirPath (es, g)"
      "\<forall>e\<in>set es. js_includes (JArr ignored) e = Inr False"
    using reached_occurs unfolding occurs_unignored_def by blast
  have "ds = es \<and> f = g"
    using path_of_inj files_below_valid [OF assms(1) assms(2)]
      files_below_valid [OF assms(1) r(1)] r(2) by blast
  with r(3) assms(3) have "js_includes (JArr ignored) d = Inr False" by blast
  with assms(4) show False by simp
qed

text \<open>
  C8. In a valid tree, a file whose name is an entry of \<open>ignoreRootFiles\<close> is
  not among the paths the walker returns, whichever directory holds it: the rule is
  applied at every depth, not at the workspace root only.
\<close>

theorem ignoreRootFiles_applies_at_every_depth:
  assumes "valid_tree items"
    and "(ds, f) \<in> set (files_below items)"
    and "JStr f \<in> set ignored"
  shows "path_of dirPath (ds, f) \<notin> set (getAllFiles dirPath igF (JArr ignored) (Some items))"
proof
  assume "path_of dirPath (ds, f) \<in> set (getAllFiles dirPath igF (JArr ignored) (Some items))"
  then have "reached igF (JArr ignored) dirPath items (path_of dirPath (ds, f))"
    using walker_reached(1) by blast
  then obtain es g where r: "(es, g) \<in> set (files_below items)"
      "path_of dirPath (ds, f) = path_of dirPath (es, g)"
      "js_includes (JArr ignored) g = Inr False"
    using reached_occurs unfolding occurs_unignored_def by blast
  have "ds = es \<and> f = g"
    using path_of_inj files_below_valid [OF assms(1) assms(2)]
      files_below_valid [OF assms(1) r(1)] r(2) by blast
  with r(3) have "js_includes (JArr ignored) f = Inr False" by blast
  with assms(3) show False by simp
qed

section \<open>The configuration resolver\<close>

text \<open>
  C9. \<open>readConfigFile\<close> returns a configuration in every case (every exception
  of its \<open>try\<close> block is caught). Without a configuration file, with one that
  cannot be read, and with one whose text \<open>JSON.parse\<close> rejects, the result is
  the built-in default. With a text that parses to an object, each of the three
  keys the object has takes the user's value whole, and each key it lacks keeps its
  default.
\<close>

theorem readConfigFile_never_raises:
  "(\<not> existsSync workspacePath listing (path_join workspacePath ''.filescavengerrc'') \<longrightarrow>
      readConfigFile parse workspacePath listing = defaultConfig)
   \<and> (readFile workspacePath listing (path_join workspacePath ''.filescavengerrc'') = Inl e \<longrightarrow>
        readConfigFile parse workspacePath listing = defaultConfig)
   \<and> (readFile workspacePath listing (path_join workspacePath ''.filescavengerrc'') = Inr cfgText \<longrightarrow>
        parse cfgText = None \<longrightarrow>
        readConfigFile parse workspacePath listing = defaultConfig)
   \<and> (readFile workspacePath listing (path_join workspacePath ''.filescavengerrc'') = Inr cfgText' \<longrightarrow>
        parse cfgText' = Some (JObj kvs) \<longrightarrow>
        readConfigFile parse workspacePath listing =
          \<lparr> fileTypes =
              (case map_of kvs ''fileTypes'' of Some v \<Rightarrow> v | None \<Rightarrow> fileTypes defaultConfig),
            ignoreFolders =
              (case map_of kvs ''ignoreFolders'' of Some v \<Rightarrow> v
               | None \<Rightarrow> ignoreFolders defaultConfig),
            ignoreRootFiles =
              (case map_of kvs ''ignoreRootFiles'' of Some v \<Rightarrow> v
               | None \<Rightarrow> ignoreRootFiles defaultConfig) \<rparr>)"
  by (auto simp: readConfigFile_def readConfigFile_try_def Let_def spread_def spread_key_def
        dest: readFile_exists)

section \<open>The heuristic on one batch\<close>

text \<open>
  C4. A call of \<open>findUnusedFiles\<close> on a batch of one file that is not marked
  used, with cancellation not requested (in particular never requested, the token
  \<open>None\<close>), returns exactly that file, whatever any file contains. The last batch
  of a scan over \<open>batchSize * k + 1\<close> tracked files is such a batch: it holds the
  last tracked file alone.
\<close>

theorem singleton_batch_is_unused:
  "(\<not> get_override userOverrides f \<longrightarrow> tok \<noteq> Some 0 \<longrightarrow>
      fst (findUnusedFiles rf [f] workspacePath userOverrides tok) = [f])
   \<and> (length trackedFiles = batchSize * k + 1 \<longrightarrow>
        slice trackedFiles (batchSize * k) (batchSize * k + batchSize) = [last trackedFiles])"
proof
  show "\<not> get_override userOverrides f \<longrightarrow> tok \<noteq> Some 0 \<longrightarrow>
      fst (findUnusedFiles rf [f] workspacePath userOverrides tok) = [f]"
  proof (cases tok)
    case None
    then show ?thesis by (simp add: findUnusedFiles_def)
  next
    case (Some j)
    then show ?thesis by (cases j) (simp_all add: findUnusedFiles_def)
  qed
next
  show "length trackedFiles = batchSize * k + 1 \<longrightarrow>
        slice trackedFiles (batchSize * k) (batchSize * k + batchSize) = [last trackedFiles]"
  proof
    assume l: "length trackedFiles = batchSize * k + 1"
    then have "length (drop (batchSize * k) trackedFiles) = 1" by simp
    then obtain x where x: "drop (batchSize * k) trackedFiles = [x]"
      by (cases "drop (batchSize * k) trackedFiles") auto
    have "trackedFiles = take (batchSize * k) trackedFiles @ [x]"
      using x by (metis append_take_drop_id)
    then have "last trackedFiles = x" by (metis last_snoc)
    then show "slice trackedFiles (batchSize * k) (batchSize * k + batchSize) = [last trackedFiles]"
      using x by (simp add: slice_def batchSize_def)
  qed
qed

text \<open>
  C6. When cancellation is requested after \<open>k\<close> polls, \<open>findUnusedFiles\<close>
  reports files among the first \<open>k\<close> of the batch only. Whatever the token, every
  file it reports was polled before the request and is mentioned by no other file of
  the batch, and would be reported by the uncancelled call as well: a file skipped
  on cancellation is left out, never reported.
\<close>

theorem cancelled_batch_reports_only_checked_files:
  "fst (findUnusedFiles rf batch workspacePath userOverrides (Some k)) =
     filter (\<lambda>f. \<not> get_override userOverrides f \<and> \<not> isUsed_loop rf f batch) (take k batch)
   \<and> (\<forall>f \<in> set (fst (findUnusedFiles rf batch workspacePath userOverrides tok)).
         f \<in> set (polled tok batch)
         \<and> (\<forall>g \<in> set batch. g \<noteq> f \<longrightarrow> \<not> mentions rf g f))
   \<and> set (fst (findUnusedFiles rf batch workspacePath userOverrides tok))
        \<subseteq> set (fst (findUnusedFiles rf batch workspacePath userOverrides None))"
proof -
  have "set (polled tok batch) \<subseteq> set batch"
    by (cases tok) (auto simp: polled_def dest: in_set_takeD)
  then have "set (fst (findUnusedFiles rf batch workspacePath userOverrides tok))
        \<subseteq> set (fst (findUnusedFiles rf batch workspacePath userOverrides None))"
    by (auto simp: findUnusedFiles_fst polled_def)
  then show ?thesis
    by (auto simp: findUnusedFiles_fst polled_def isUsed_loop_iff)
qed

section \<open>Overrides and deletions\<close>

text \<open>
  C5, amended. Let \<open>p\<close> be marked used in the override store. Then
  \<open>findUnusedFiles\<close> does not report \<open>p\<close>, a scan that completes does not publish
  \<open>p\<close>, and after any sequence of scans, deletions, and toggles and resets of other
  paths, \<open>p\<close> is not an item of the tree view and does not carry the badge of an
  unused file: the exclusion lasts until the override of \<open>p\<close> itself is reset or
  toggled again.
\<close>

theorem marked_used_is_never_shown_unused:
  assumes "get_override (overrides s) p"
    and "\<forall>e\<in>set events. e \<noteq> Toggle p \<and> e \<noteq> Reset p"
  shows "p \<notin> set (fst (findUnusedFiles rf batch workspacePath (overrides s) tok))
    \<and> (fst (highlightUnusedFiles parse lower w tok s) = ScanComplete n \<longrightarrow>
         p \<notin> set (provider_unusedFiles (snd (highlightUnusedFiles parse lower w tok s))))
    \<and> p \<notin> fst ` set (getChildren (foldl step s events))
    \<and> provideFileDecoration (foldl step s events) p \<noteq> Some UnusedFile"
proof -
  have a: "p \<notin> set (fst (findUnusedFiles rf batch workspacePath (overrides s) tok))"
    using assms(1) by (simp add: findUnusedFiles_fst)
  have b: "fst (highlightUnusedFiles parse lower w tok s) = ScanComplete n \<longrightarrow>
         p \<notin> set (provider_unusedFiles (snd (highlightUnusedFiles parse lower w tok s)))"
    using assms(1) highlight_complete_elems
        [of parse lower w tok s n "snd (highlightUnusedFiles parse lower w tok s)"]
    by (metis prod.collapse)
  have o: "get_override (overrides (foldl step s events)) p"
    using assms run_keeps_override by simp
  then have c: "p \<notin> fst ` set (getChildren (foldl step s events))"
    by (auto simp: getChildren_def)
  have d: "provideFileDecoration (foldl step s events) p \<noteq> Some UnusedFile"
    using o by (simp add: provideFileDecoration_def)
  from a b c d show ?thesis by blast
qed

text \<open>
  C10. The deletion handler replaces the list the provider holds by that list
  without any occurrence of the deleted path, using the list and the path alone (no
  scan takes place, the override store is untouched). If the path was in the list it
  is no longer; if it was not, the list is unchanged.
\<close>

theorem onDidDelete_removes_path:
  "provider_unusedFiles (onDidDelete p s) = removeAll p (provider_unusedFiles s)
   \<and> (p \<in> set (provider_unusedFiles s) \<longrightarrow> p \<notin> set (provider_unusedFiles (onDidDelete p s)))
   \<and> (p \<notin> set (provider_unusedFiles s) \<longrightarrow>
        provider_unusedFiles (onDidDelete p s) = provider_unusedFiles s)
   \<and> overrides (onDidDelete p s) = overrides s"
proof -
  have "filter (\<lambda>file. file \<noteq> p) (provider_unusedFiles s) = removeAll p (provider_unusedFiles s)"
    by (rule filter_neq_removeAll)
  then show ?thesis by (simp add: onDidDelete_def publish_def)
qed

section \<open>The scan command on the example workspaces\<close>

lemma readConfigFile_absent:
  "\<not> existsSync ws listing (path_join ws ''.filescavengerrc'') \<Longrightarrow>
     readConfigFile parse ws listing = defaultConfig"
  by (simp add: readConfigFile_def)

lemma readConfigFile_object:
  "readFile ws listing (path_join ws ''.filescavengerrc'') = Inr text \<Longrightarrow>
   parse text = Some userConfig \<Longrightarrow>
     readConfigFile parse ws listing = spread defaultConfig userConfig"
  by (auto simp: readConfigFile_def readConfigFile_try_def Let_def dest: readFile_exists)

lemma highlight_unfold:
  "scan_trackedFiles parse lower ws listing = Inr tr \<Longrightarrow>
     highlightUnusedFiles parse lower (Some (ws, listing)) tok s =
       (case scan_loop (readFile ws listing) ws (overrides s) tr 0 tok [] of
          None \<Rightarrow> (ScanCanceled, s)
        | Some unused \<Rightarrow> (ScanComplete (length unused), publish unused s))"
  by (simp add: highlightUnusedFiles_def scan_trackedFiles_def Let_def)

lemma example_config_read:
  assumes "parse example_config_text = Some example_config"
  shows "readConfigFile parse ''/root'' example_listing =
     \<lparr> fileTypes = JArr [JStr ''.ts''], ignoreFolders = JArr [], ignoreRootFiles = JArr [] \<rparr>"
proof -
  have rd: "readFile ''/root'' example_listing (path_join ''/root'' ''.filescavengerrc'')
              = Inr example_config_text"
    by code_simp
  have "spread defaultConfig example_config =
     \<lparr> fileTypes = JArr [JStr ''.ts''], ignoreFolders = JArr [], ignoreRootFiles = JArr [] \<rparr>"
    by code_simp
  then show ?thesis using readConfigFile_object [where parse = parse, OF rd assms] by simp
qed

lemma filter_tracked_cong:
  "\<forall>f\<in>set files. lower (extname f) = lower' (extname f) \<Longrightarrow>
     filter_tracked lower ft files = filter_tracked lower' ft files"
  by (induction files) (auto split: sum.splits)

lemma example_lower_ts: "example_lower ''.ts'' = ''.ts''"
  by code_simp

lemma example_lower_empty: "example_lower [] = []"
  by (simp add: example_lower_def)

lemma example_tracked:
  assumes "parse example_config_text = Some example_config"
    and "lower ''.ts'' = ''.ts''" and "lower [] = []"
  shows "scan_trackedFiles parse lower ''/root'' example_listing
           = Inr [''/root/a.ts'', ''/root/b.ts'', ''/root/c.ts'']"
proof -
  have all: "getAllFiles ''/root'' (JArr []) (JArr []) example_listing
        = [''/root/.filescavengerrc'', ''/root/a.ts'', ''/root/b.ts'', ''/root/c.ts'']"
    by code_simp
  have ext: "extname ''/root/.filescavengerrc'' = []" "extname ''/root/a.ts'' = ''.ts''"
    "extname ''/root/b.ts'' = ''.ts''" "extname ''/root/c.ts'' = ''.ts''"
    by code_simp+
  have "filter_tracked lower (JArr [JStr ''.ts''])
          [''/root/.filescavengerrc'', ''/root/a.ts'', ''/root/b.ts'', ''/root/c.ts'']
        = Inr [''/root/a.ts'', ''/root/b.ts'', ''/root/c.ts'']"
    by (simp add: ext assms(2,3))
  then show ?thesis
    by (simp add: scan_trackedFiles_def all
          example_config_read [where parse = parse, OF assms(1)])
qed

lemma example_parse_config: "example_parse example_config_text = Some example_config"
  by (simp add: example_parse_def)

lemmas example_tracked_here =
  example_tracked [where parse = example_parse and lower = example_lower,
    OF example_parse_config example_lower_ts example_lower_empty]

lemma example_scan_loop:
  "scan_loop (readFile ''/root'' example_listing) ''/root'' (overrides activate)
     [''/root/a.ts'', ''/root/b.ts'', ''/root/c.ts''] 0 None []
   = Some [''/root/b.ts'', ''/root/c.ts'']"
  by code_simp

lemma example_scan_with_c_marked:
  "highlightUnusedFiles example_parse example_lower (Some (''/root'', example_listing)) None
     (toggleFileStatus ''/root/c.ts'' activate)
   = (ScanComplete 1, publish [''/root/b.ts''] (toggleFileStatus ''/root/c.ts'' activate))"
proof -
  have "scan_loop (readFile ''/root'' example_listing) ''/root''
          (overrides (toggleFileStatus ''/root/c.ts'' activate))
          [''/root/a.ts'', ''/root/b.ts'', ''/root/c.ts''] 0 None [] = Some [''/root/b.ts'']"
    by code_simp
  then show ?thesis by (simp add: highlight_unfold [OF example_tracked_here])
qed

lemma big_tracked_scan:
  assumes "lower ''.ts'' = ''.ts''"
  shows "scan_trackedFiles parse lower ''/w'' big_listing = Inr big_tracked"
proof -
  let ?all = "getAllFiles ''/w'' (ignoreFolders defaultConfig) (ignoreRootFiles defaultConfig)
                big_listing"
  have "\<not> existsSync ''/w'' big_listing (path_join ''/w'' ''.filescavengerrc'')" by code_simp
  then have c: "readConfigFile parse ''/w'' big_listing = defaultConfig"
    by (rule readConfigFile_absent)
  have "list_all (\<lambda>f. extname f = ''.ts'') ?all" by code_simp
  then have "\<forall>f\<in>set ?all. lower (extname f) = example_lower (extname f)"
    using assms example_lower_ts by (simp add: list_all_iff)
  then have "filter_tracked lower (fileTypes defaultConfig) ?all
      = filter_tracked example_lower (fileTypes defaultConfig) ?all"
    by (rule filter_tracked_cong)
  also have "\<dots> = Inr big_tracked" by code_simp
  finally show ?thesis by (simp add: scan_trackedFiles_def c)
qed

lemma big_tracked_length: "length big_tracked = 101"
  by code_simp

lemma big_tracked_last: "last big_tracked = ''/w/z.ts''"
  by code_simp

lemma big_first_batch_finds_a:
  "''/w/a.ts'' \<in> set (fst (findUnusedFiles (readFile ''/w'' big_listing)
         (slice big_tracked 0 batchSize) ''/w'' (overrides activate) (Some 100)))"
proof -
  have u: "\<not> isUsed_loop (readFile ''/w'' big_listing) ''/w/a.ts'' (slice big_tracked 0 batchSize)"
    by code_simp
  have o: "\<not> get_override (overrides activate) ''/w/a.ts''" by code_simp
  have m: "''/w/a.ts'' \<in> set (polled (Some 100) (slice big_tracked 0 batchSize))" by code_simp
  show ?thesis using u o m by (simp add: findUnusedFiles_fst)
qed

text \<open>
  C3, as the specification states it, fails: on the example workspace the
  uncancelled scan does not publish \<open>/root/c.ts\<close> alone; \<open>/root/b.ts\<close>, which no
  file mentions, is in the list as well.
\<close>

theorem example_scan_is_not_c_alone:
  "provider_unusedFiles
     (snd (highlightUnusedFiles example_parse example_lower
             (Some (''/root'', example_listing)) None activate))
     \<noteq> [''/root/c.ts'']
   \<and> ''/root/b.ts'' \<in> set (provider_unusedFiles
     (snd (highlightUnusedFiles example_parse example_lower
             (Some (''/root'', example_listing)) None activate)))"
  by (simp add: highlight_unfold [OF example_tracked_here] example_scan_loop publish_def)

text \<open>
  C3, amended. On the example workspace (listed in the order \<open>a.ts\<close>,
  \<open>b.ts\<close>, \<open>c.ts\<close>), with a configuration file that parses to "track \<open>.ts\<close>
  only, ignore nothing", no overrides and no cancellation, the scan completes and
  publishes exactly \<open>/root/b.ts\<close> and \<open>/root/c.ts\<close>: \<open>a.ts\<close> is used through
  its name without extension in \<open>b.ts\<close>, and nothing mentions \<open>b.ts\<close> or \<open>c.ts\<close>.
  This holds for every \<open>JSON.parse\<close> that reads the configuration text so, and
  every \<open>toLowerCase\<close> that leaves \<open>.ts\<close> and the empty string as they are.
\<close>

theorem example_scan_reports_b_and_c:
  assumes "parse example_config_text = Some example_config"
    and "lower ''.ts'' = ''.ts''" and "lower [] = []"
  shows "highlightUnusedFiles parse lower (Some (''/root'', example_listing)) None activate =
     (ScanComplete 2, publish [''/root/b.ts'', ''/root/c.ts''] activate)"
  by (simp add: example_scan_loop
        highlight_unfold [OF example_tracked [where parse = parse and lower = lower, OF assms]])

text \<open>
  The amended C3 at \<open>example_parse\<close> and \<open>example_lower\<close>.
\<close>

theorem example_scan_reports_b_and_c_witness:
  "example_parse example_config_text = Some example_config
   \<and> example_lower ''.ts'' = ''.ts'' \<and> example_lower [] = []
   \<and> highlightUnusedFiles example_parse example_lower
         (Some (''/root'', example_listing)) None activate =
       (ScanComplete 2, publish [''/root/b.ts'', ''/root/c.ts''] activate)"
  using example_scan_reports_b_and_c
      [where parse = example_parse and lower = example_lower,
        OF example_parse_config example_lower_ts example_lower_empty]
    example_parse_config example_lower_ts example_lower_empty
  by simp

text \<open>
  C1 at a workspace of 101 tracked files. The base name of \<open>/w/z.ts\<close>
  occurs verbatim in the content of the tracked file \<open>/w/a.ts\<close>, nothing is
  overridden and nothing is cancelled, and still the scan publishes \<open>/w/z.ts\<close> as
  unused: \<open>a.ts\<close> is in the first batch of 100 files, \<open>z.ts\<close> alone in the
  second, and \<open>findUnusedFiles\<close> compares a file with the files of its own batch
  only. This holds for every \<open>JSON.parse\<close> (there is no configuration file) and
  every \<open>toLowerCase\<close> that leaves \<open>.ts\<close> as it is.
\<close>

theorem basename_in_another_batch_is_missed:
  assumes "lower ''.ts'' = ''.ts''"
  shows "scan_trackedFiles parse lower ''/w'' big_listing = Inr big_tracked
   \<and> ''/w/a.ts'' \<in> set big_tracked \<and> ''/w/z.ts'' \<in> set big_tracked
   \<and> readFile ''/w'' big_listing ''/w/a.ts'' = Inr big_a_content
   \<and> str_includes big_a_content (basename ''/w/z.ts'')
   \<and> \<not> get_override (overrides activate) ''/w/z.ts''
   \<and> fst (highlightUnusedFiles parse lower (Some (''/w'', big_listing)) None activate)
        \<noteq> ScanCanceled
   \<and> ''/w/z.ts'' \<in> set (provider_unusedFiles
         (snd (highlightUnusedFiles parse lower (Some (''/w'', big_listing)) None activate)))"
proof -
  note t = big_tracked_scan [where lower = lower and parse = parse, OF assms]
  have a: "''/w/a.ts'' \<in> set big_tracked" by code_simp
  have z: "''/w/z.ts'' \<in> set big_tracked" by code_simp
  have r: "readFile ''/w'' big_listing ''/w/a.ts'' = Inr big_a_content" by code_simp
  have i: "str_includes big_a_content (basename ''/w/z.ts'')" by code_simp
  have o: "\<not> get_override (overrides activate) ''/w/z.ts''" by code_simp
  have "\<exists>r. scan_loop (readFile ''/w'' big_listing) ''/w'' (overrides activate) big_tracked 0 None []
          = Some (r @ [last big_tracked])"
    by (rule scan_loop_final_singleton)
       (simp_all add: big_tracked_length big_tracked_last batchSize_def o)
  then obtain r where
    "scan_loop (readFile ''/w'' big_listing) ''/w'' (overrides activate) big_tracked 0 None []
       = Some (r @ [''/w/z.ts''])"
    using big_tracked_last by auto
  then have "highlightUnusedFiles parse lower (Some (''/w'', big_listing)) None activate =
      (ScanComplete (length (r @ [''/w/z.ts''])), publish (r @ [''/w/z.ts'']) activate)"
    by (simp add: highlight_unfold [OF t])
  then have
    "fst (highlightUnusedFiles parse lower (Some (''/w'', big_listing)) None activate)
       \<noteq> ScanCanceled"
    "''/w/z.ts'' \<in> set (provider_unusedFiles
         (snd (highlightUnusedFiles parse lower (Some (''/w'', big_listing)) None activate)))"
    by (simp_all add: publish_def)
  then show ?thesis using t a z r i o by blast
qed

text \<open>
  C1's failing input at \<open>example_parse\<close> and \<open>example_lower\<close>.
\<close>

theorem basename_in_another_batch_is_missed_witness:
  "example_lower ''.ts'' = ''.ts''
   \<and> scan_trackedFiles example_parse example_lower ''/w'' big_listing = Inr big_tracked
   \<and> readFile ''/w'' big_listing ''/w/a.ts'' = Inr big_a_content
   \<and> str_includes big_a_content (basename ''/w/z.ts'')
   \<and> ''/w/z.ts'' \<in> set (provider_unusedFiles
         (snd (highlightUnusedFiles example_parse example_lower
                 (Some (''/w'', big_listing)) None activate)))"
  using basename_in_another_batch_is_missed
      [where lower = example_lower and parse = example_parse, OF example_lower_ts]
    example_lower_ts
  by blast

section \<open>Cancellation of the scan command\<close>

text \<open>
  C2, as the specification states it, fails. On the workspace of 101 tracked
  files, let cancellation be requested once the first batch is done (after 101
  polls: one at the start of the batch, one per file). The first batch has found
  unused files, \<open>/w/a.ts\<close> among them, but the command ends with the cancellation
  message alone: it hands no list to anyone, and the published list is still the
  empty list of before the scan.
\<close>

theorem cancelled_scan_drops_partial_result:
  "highlightUnusedFiles example_parse example_lower (Some (''/w'', big_listing)) (Some 101)
     activate
     = (ScanCanceled, activate)
   \<and> provider_unusedFiles activate = []
   \<and> ''/w/a.ts'' \<in> set (fst (findUnusedFiles (readFile ''/w'' big_listing)
         (slice big_tracked 0 batchSize) ''/w'' (overrides activate) (Some 100)))"
proof -
  have "scan_loop (readFile ''/w'' big_listing) ''/w'' (overrides activate) big_tracked 0
          (Some 101) [] = None"
    by (rule scan_loop_canceled) (simp_all add: big_tracked_length batchSize_def)
  then have a:
    "highlightUnusedFiles example_parse example_lower (Some (''/w'', big_listing)) (Some 101)
       activate
     = (ScanCanceled, activate)"
    by (simp add: highlight_unfold
          [OF big_tracked_scan [where lower = example_lower, OF example_lower_ts]])
  have b: "provider_unusedFiles activate = []" by (simp add: activate_def)
  from a b big_first_batch_finds_a show ?thesis by blast
qed

text \<open>
  C2, amended. If cancellation is requested early enough to be seen by the
  poll at the start of a batch (at most \<open>(batchSize + 1) * ((n - 1) div batchSize)\<close>
  polls answer "not requested" before it, for \<open>n \<ge> 1\<close> tracked files), the scan
  command raises no error and ends with the message "Scan canceled by user."; it
  publishes nothing: what the batches before have found is dropped, and the list
  published before the scan stays as it was. This holds for every \<open>JSON.parse\<close>
  and every \<open>toLowerCase\<close>.
\<close>

theorem cancellation_at_batch_start_publishes_nothing:
  assumes "scan_trackedFiles parse lower workspacePath listing = Inr trackedFiles"
    and "trackedFiles \<noteq> []"
    and "k \<le> (batchSize + 1) * ((length trackedFiles - 1) div batchSize)"
  shows "highlightUnusedFiles parse lower (Some (workspacePath, listing)) (Some k) s
           = (ScanCanceled, s)"
proof -
  have "0 < length trackedFiles" using assms(2) by simp
  moreover have "k \<le> (batchSize + 1) * ((length trackedFiles - 0 - 1) div batchSize)"
    using assms(3) by simp
  ultimately have "scan_loop (readFile workspacePath listing) workspacePath (overrides s)
      trackedFiles 0 (Some k) [] = None"
    by (rule scan_loop_canceled)
  then show ?thesis by (simp add: highlight_unfold [OF assms(1)])
qed

text \<open>
  The amended C2 on the workspace of 101 tracked files, with a list published
  earlier and cancellation requested once the first batch is done: the first batch
  has found \<open>/w/a.ts\<close>, the command ends with the cancellation message, and the
  published list is the earlier one.
\<close>

theorem cancellation_at_batch_start_publishes_nothing_witness:
  "scan_trackedFiles example_parse example_lower ''/w'' big_listing = Inr big_tracked
   \<and> big_tracked \<noteq> []
   \<and> (101::nat) \<le> (batchSize + 1) * ((length big_tracked - 1) div batchSize)
   \<and> ''/w/a.ts'' \<in> set (fst (findUnusedFiles (readFile ''/w'' big_listing)
         (slice big_tracked 0 batchSize) ''/w''
         (overrides (publish [''/w/old.ts''] activate)) (Some 100)))
   \<and> highlightUnusedFiles example_parse example_lower (Some (''/w'', big_listing)) (Some 101)
         (publish [''/w/old.ts''] activate)
       = (ScanCanceled, publish [''/w/old.ts''] activate)
   \<and> provider_unusedFiles (publish [''/w/old.ts''] activate) = [''/w/old.ts'']"
proof -
  have h1: "scan_trackedFiles example_parse example_lower ''/w'' big_listing = Inr big_tracked"
    by (rule big_tracked_scan [where lower = example_lower, OF example_lower_ts])
  have h2: "big_tracked \<noteq> []" using big_tracked_length by auto
  have h3: "(101::nat) \<le> (batchSize + 1) * ((length big_tracked - 1) div batchSize)"
    by (simp add: big_tracked_length batchSize_def)
  have f: "''/w/a.ts'' \<in> set (fst (findUnusedFiles (readFile ''/w'' big_listing)
         (slice big_tracked 0 batchSize) ''/w''
         (overrides (publish [''/w/old.ts''] activate)) (Some 100)))"
    using big_first_batch_finds_a by (simp add: publish_def)
  have l: "provider_unusedFiles (publish [''/w/old.ts''] activate) = [''/w/old.ts'']"
    by (simp add: publish_def)
  from cancellation_at_batch_start_publishes_nothing
         [where parse = example_parse and lower = example_lower, OF h1 h2 h3]
  have "highlightUnusedFiles example_parse example_lower (Some (''/w'', big_listing)) (Some 101)
         (publish [''/w/old.ts''] activate)
       = (ScanCanceled, publish [''/w/old.ts''] activate)" .
  with h1 h2 h3 f l show ?thesis by blast
qed

section \<open>The properties at concrete workspaces\<close>

text \<open>
  C7 at the nested workspace: \<open>deep.ts\<close> lies in the \<open>vendor\<close> folder
  inside \<open>src\<close>, and the walker does not return it.
\<close>

theorem ignored_folder_pruned_at_any_depth_witness:
  "valid_tree nested_listing
   \<and> ([''src'', ''vendor''], ''deep.ts'') \<in> set (files_below nested_listing)
   \<and> ''vendor'' \<in> set [''src'', ''vendor'']
   \<and> JStr ''vendor'' \<in> set [JStr ''vendor'']
   \<and> path_of ''/root'' ([''src'', ''vendor''], ''deep.ts'') = ''/root/src/vendor/deep.ts''
   \<and> ''/root/src/vendor/deep.ts''
        \<notin> set (getAllFiles ''/root'' (JArr [JStr ''vendor'']) (JArr []) (Some nested_listing))"
proof -
  have h1: "valid_tree nested_listing" by code_simp
  have h2: "([''src'', ''vendor''], ''deep.ts'') \<in> set (files_below nested_listing)" by code_simp
  have h3: "''vendor'' \<in> set [''src'', ''vendor'']" by simp
  have h4: "JStr ''vendor'' \<in> set [JStr ''vendor'']" by simp
  have p: "path_of ''/root'' ([''src'', ''vendor''], ''deep.ts'') = ''/root/src/vendor/deep.ts''"
    by code_simp
  from ignored_folder_pruned_at_any_depth
         [OF h1 h2 h3 h4, where dirPath = "''/root''" and igR = "JArr []"]
  have "''/root/src/vendor/deep.ts''
        \<notin> set (getAllFiles ''/root'' (JArr [JStr ''vendor'']) (JArr []) (Some nested_listing))"
    unfolding p .
  with h1 h2 h3 h4 p show ?thesis by blast
qed

text \<open>
  C8 at the nested workspace: \<open>README.md\<close> lies in \<open>src\<close>, one level
  below the root, and the walker does not return it.
\<close>

theorem ignoreRootFiles_applies_at_every_depth_witness:
  "valid_tree nested_listing
   \<and> ([''src''], ''README.md'') \<in> set (files_below nested_listing)
   \<and> JStr ''README.md'' \<in> set [JStr ''package.json'', JStr ''README.md'']
   \<and> path_of ''/root'' ([''src''], ''README.md'') = ''/root/src/README.md''
   \<and> ''/root/src/README.md''
        \<notin> set (getAllFiles ''/root'' (JArr [])
                  (JArr [JStr ''package.json'', JStr ''README.md'']) (Some nested_listing))"
proof -
  have h1: "valid_tree nested_listing" by code_simp
  have h2: "([''src''], ''README.md'') \<in> set (files_below nested_listing)" by code_simp
  have h3: "JStr ''README.md'' \<in> set [JStr ''package.json'', JStr ''README.md'']" by simp
  have p: "path_of ''/root'' ([''src''], ''README.md'') = ''/root/src/README.md''"
    by code_simp
  from ignoreRootFiles_applies_at_every_depth
         [OF h1 h2 h3, where dirPath = "''/root''" and igF = "JArr []"]
  have "''/root/src/README.md''
        \<notin> set (getAllFiles ''/root'' (JArr [])
                  (JArr [JStr ''package.json'', JStr ''README.md'']) (Some nested_listing))"
    unfolding p .
  with h1 h2 h3 p show ?thesis by blast
qed

text \<open>
  C9 at four workspaces: no configuration file, an unreadable one, one with
  malformed text, and the example's.
\<close>

theorem readConfigFile_never_raises_witness:
  "\<not> existsSync ''/w'' big_listing (path_join ''/w'' ''.filescavengerrc'')
   \<and> readConfigFile example_parse ''/w'' big_listing = defaultConfig
   \<and> readFile ''/root'' (Some [File ''.filescavengerrc'' None])
         (path_join ''/root'' ''.filescavengerrc'') = Inl IOError
   \<and> readConfigFile example_parse ''/root'' (Some [File ''.filescavengerrc'' None]) = defaultConfig
   \<and> readFile ''/root'' (Some [File ''.filescavengerrc'' (Some ''{'')])
         (path_join ''/root'' ''.filescavengerrc'') = Inr ''{''
   \<and> example_parse ''{'' = None
   \<and> readConfigFile example_parse ''/root'' (Some [File ''.filescavengerrc'' (Some ''{'')])
         = defaultConfig
   \<and> readFile ''/root'' example_listing (path_join ''/root'' ''.filescavengerrc'')
         = Inr example_config_text
   \<and> example_parse example_config_text = Some example_config
   \<and> readConfigFile example_parse ''/root'' example_listing =
         \<lparr> fileTypes = JArr [JStr ''.ts''], ignoreFolders = JArr [], ignoreRootFiles = JArr [] \<rparr>"
proof -
  have a: "\<not> existsSync ''/w'' big_listing (path_join ''/w'' ''.filescavengerrc'')" by code_simp
  have b: "readFile ''/root'' (Some [File ''.filescavengerrc'' None])
         (path_join ''/root'' ''.filescavengerrc'') = Inl IOError" by code_simp
  have c: "readFile ''/root'' (Some [File ''.filescavengerrc'' (Some ''{'')])
         (path_join ''/root'' ''.filescavengerrc'') = Inr ''{''" by code_simp
  have c': "example_parse ''{'' = None" by code_simp
  have d: "readFile ''/root'' example_listing (path_join ''/root'' ''.filescavengerrc'')
         = Inr example_config_text" by code_simp
  have d': "example_parse example_config_text = Some (JObj
     [(''fileTypes'', JArr [JStr ''.ts'']), (''ignoreFolders'', JArr []),
      (''ignoreRootFiles'', JArr [])])"
    by (simp add: example_parse_def example_config_def)
  have ra: "readConfigFile example_parse ''/w'' big_listing = defaultConfig"
    using readConfigFile_never_raises
      [where workspacePath = "''/w''" and listing = big_listing and parse = example_parse] a
    by blast
  have rb: "readConfigFile example_parse ''/root'' (Some [File ''.filescavengerrc'' None])
      = defaultConfig"
    using readConfigFile_never_raises
      [where workspacePath = "''/root''" and listing = "Some [File ''.filescavengerrc'' None]"
         and parse = example_parse and e = IOError] b
    by blast
  have rc: "readConfigFile example_parse ''/root'' (Some [File ''.filescavengerrc'' (Some ''{'')])
      = defaultConfig"
    using readConfigFile_never_raises
      [where workspacePath = "''/root''"
         and listing = "Some [File ''.filescavengerrc'' (Some ''{'')]"
         and parse = example_parse and cfgText = "''{''"] c c'
    by blast
  have rd: "readConfigFile example_parse ''/root'' example_listing =
         \<lparr> fileTypes = JArr [JStr ''.ts''], ignoreFolders = JArr [], ignoreRootFiles = JArr [] \<rparr>"
    using readConfigFile_never_raises
      [where workspacePath = "''/root''" and listing = example_listing
         and parse = example_parse and cfgText' = example_config_text
         and kvs = "[(''fileTypes'', JArr [JStr ''.ts'']), (''ignoreFolders'', JArr []),
                     (''ignoreRootFiles'', JArr [])]"] d d'
    by simp
  have d'': "example_parse example_config_text = Some example_config"
    by (rule example_parse_config)
  from a ra b rb c c' rc d d'' rd show ?thesis by blast
qed

text \<open>
  C4 at the workspace of 101 tracked files: its last batch is \<open>/w/z.ts\<close>
  alone, which is reported although \<open>a.ts\<close> mentions it.
\<close>

theorem singleton_batch_is_unused_witness:
  "\<not> get_override (overrides activate) ''/w/z.ts''
   \<and> (None :: token) \<noteq> Some 0
   \<and> fst (findUnusedFiles (readFile ''/w'' big_listing) [''/w/z.ts''] ''/w''
            (overrides activate) None) = [''/w/z.ts'']
   \<and> length big_tracked = batchSize * 1 + 1
   \<and> slice big_tracked (batchSize * 1) (batchSize * 1 + batchSize) = [last big_tracked]"
proof -
  have h1: "\<not> get_override (overrides activate) ''/w/z.ts''" by code_simp
  have h2: "(None :: token) \<noteq> Some 0" by simp
  have h3: "length big_tracked = batchSize * 1 + 1"
    by (simp add: big_tracked_length batchSize_def)
  show ?thesis
    using singleton_batch_is_unused
      [where userOverrides = "overrides activate" and f = "''/w/z.ts''" and tok = None
         and rf = "readFile ''/w'' big_listing" and workspacePath = "''/w''"
         and trackedFiles = big_tracked and k = 1]
      h1 h2 h3
    by blast
qed

text \<open>
  C6 on the example workspace, cancelled after two polls: \<open>a.ts\<close> and
  \<open>b.ts\<close> are checked, \<open>b.ts\<close> is reported, \<open>c.ts\<close> is left out.
\<close>

theorem cancelled_batch_reports_only_checked_files_witness:
  "fst (findUnusedFiles (readFile ''/root'' example_listing)
          [''/root/a.ts'', ''/root/b.ts'', ''/root/c.ts''] ''/root'' (overrides activate) (Some 2))
     = [''/root/b.ts'']
   \<and> ''/root/b.ts'' \<in> set (polled (Some 2) [''/root/a.ts'', ''/root/b.ts'', ''/root/c.ts''])
   \<and> \<not> mentions (readFile ''/root'' example_listing) ''/root/a.ts'' ''/root/b.ts''
   \<and> \<not> mentions (readFile ''/root'' example_listing) ''/root/c.ts'' ''/root/b.ts''
   \<and> ''/root/c.ts'' \<notin> set (fst (findUnusedFiles (readFile ''/root'' example_listing)
          [''/root/a.ts'', ''/root/b.ts'', ''/root/c.ts''] ''/root'' (overrides activate) (Some 2)))
   \<and> ''/root/b.ts'' \<in> set (fst (findUnusedFiles (readFile ''/root'' example_listing)
          [''/root/a.ts'', ''/root/b.ts'', ''/root/c.ts''] ''/root'' (overrides activate) None))"
proof -
  let ?rf = "readFile ''/root'' example_listing"
  let ?batch = "[''/root/a.ts'', ''/root/b.ts'', ''/root/c.ts'']"
  let ?r = "fst (findUnusedFiles ?rf ?batch ''/root'' (overrides activate) (Some 2))"
  have f: "filter (\<lambda>f. \<not> get_override (overrides activate) f \<and> \<not> isUsed_loop ?rf f ?batch)
             (take 2 ?batch) = [''/root/b.ts'']"
    by code_simp
  note t = cancelled_batch_reports_only_checked_files
      [where rf = ?rf and batch = ?batch and workspacePath = "''/root''"
         and userOverrides = "overrides activate" and k = 2 and tok = "Some 2"]
  have r: "?r = [''/root/b.ts'']" using t f by simp
  have b: "''/root/b.ts'' \<in> set ?r" using r by simp
  have all: "\<forall>f \<in> set ?r. f \<in> set (polled (Some 2) ?batch)
         \<and> (\<forall>g \<in> set ?batch. g \<noteq> f \<longrightarrow> \<not> mentions ?rf g f)"
    using t by blast
  have sub: "set ?r \<subseteq> set (fst (findUnusedFiles ?rf ?batch ''/root'' (overrides activate) None))"
    using t by blast
  have p: "''/root/b.ts'' \<in> set (polled (Some 2) ?batch)" using all b by blast
  have m1: "\<not> mentions ?rf ''/root/a.ts'' ''/root/b.ts''" using all b by auto
  have m2: "\<not> mentions ?rf ''/root/c.ts'' ''/root/b.ts''" using all b by auto
  have c: "''/root/c.ts'' \<notin> set ?r" using r by simp
  have n: "''/root/b.ts'' \<in> set (fst (findUnusedFiles ?rf ?batch ''/root'' (overrides activate) None))"
    using sub b by blast
  from r p m1 m2 c n show ?thesis by blast
qed

text \<open>
  C5, as the specification states it, fails. On the example workspace \<open>c.ts\<close>
  is marked used and a scan leaves it out. The toggle command is then run on
  \<open>c.ts\<close> once more, which stores \<open>false\<close> for it, and the next scan publishes
  \<open>c.ts\<close>: it is an item of the tree view and carries the badge of an unused
  file, although no reset was ever called on it.
\<close>

theorem second_toggle_ends_exclusion_without_reset:
  "get_override (overrides (toggleFileStatus ''/root/c.ts'' activate)) ''/root/c.ts''
   \<and> ''/root/c.ts'' \<notin> set (provider_unusedFiles
         (foldl step (toggleFileStatus ''/root/c.ts'' activate)
            [Scan example_parse example_lower (Some (''/root'', example_listing)) None]))
   \<and> Reset ''/root/c.ts'' \<notin> set
         [Scan example_parse example_lower (Some (''/root'', example_listing)) None,
          Toggle ''/root/c.ts'',
          Scan example_parse example_lower (Some (''/root'', example_listing)) None]
   \<and> (''/root/c.ts'', False) \<in> set (getChildren
         (foldl step (toggleFileStatus ''/root/c.ts'' activate)
            [Scan example_parse example_lower (Some (''/root'', example_listing)) None,
             Toggle ''/root/c.ts'',
             Scan example_parse example_lower (Some (''/root'', example_listing)) None]))
   \<and> provideFileDecoration
         (foldl step (toggleFileStatus ''/root/c.ts'' activate)
            [Scan example_parse example_lower (Some (''/root'', example_listing)) None,
             Toggle ''/root/c.ts'',
             Scan example_parse example_lower (Some (''/root'', example_listing)) None])
         ''/root/c.ts'' = Some UnusedFile"
proof -
  let ?s0 = "toggleFileStatus ''/root/c.ts'' activate"
  let ?s2 = "toggleFileStatus ''/root/c.ts'' (publish [''/root/b.ts''] ?s0)"
  let ?s3 = "publish [''/root/b.ts'', ''/root/c.ts''] ?s2"
  have h: "get_override (overrides ?s0) ''/root/c.ts''" by code_simp
  have "scan_loop (readFile ''/root'' example_listing) ''/root'' (overrides ?s2)
          [''/root/a.ts'', ''/root/b.ts'', ''/root/c.ts''] 0 None []
        = Some [''/root/b.ts'', ''/root/c.ts'']"
    by code_simp
  then have sc2:
    "highlightUnusedFiles example_parse example_lower (Some (''/root'', example_listing)) None ?s2
       = (ScanComplete 2, ?s3)"
    by (simp add: highlight_unfold [OF example_tracked_here])
  have run1:
    "foldl step ?s0 [Scan example_parse example_lower (Some (''/root'', example_listing)) None]
       = publish [''/root/b.ts''] ?s0"
    by (simp add: example_scan_with_c_marked)
  have run3:
    "foldl step ?s0
       [Scan example_parse example_lower (Some (''/root'', example_listing)) None,
        Toggle ''/root/c.ts'',
        Scan example_parse example_lower (Some (''/root'', example_listing)) None]
       = ?s3"
    by (simp add: example_scan_with_c_marked sc2)
  have a: "''/root/c.ts'' \<notin> set (provider_unusedFiles (publish [''/root/b.ts''] ?s0))"
    by (simp add: publish_def)
  have g: "(''/root/c.ts'', False) \<in> set (getChildren ?s3)" by code_simp
  have d: "provideFileDecoration ?s3 ''/root/c.ts'' = Some UnusedFile" by code_simp
  have r: "Reset ''/root/c.ts'' \<notin> set
         [Scan example_parse example_lower (Some (''/root'', example_listing)) None,
          Toggle ''/root/c.ts'',
          Scan example_parse example_lower (Some (''/root'', example_listing)) None]"
    by simp
  show ?thesis
    unfolding run1 run3 using h a r g d by blast
qed

text \<open>
  C5 on the example workspace, with \<open>c.ts\<close> marked used before a scan,
  further commands and a cancelled scan.
\<close>

theorem marked_used_is_never_shown_unused_witness:
  "get_override (overrides (toggleFileStatus ''/root/c.ts'' activate)) ''/root/c.ts''
   \<and> ''/root/c.ts'' \<notin> set (fst (findUnusedFiles (readFile ''/root'' example_listing)
         [''/root/a.ts'', ''/root/b.ts'', ''/root/c.ts''] ''/root''
         (overrides (toggleFileStatus ''/root/c.ts'' activate)) None))
   \<and> highlightUnusedFiles example_parse example_lower (Some (''/root'', example_listing)) None
         (toggleFileStatus ''/root/c.ts'' activate)
       = (ScanComplete 1, publish [''/root/b.ts''] (toggleFileStatus ''/root/c.ts'' activate))
   \<and> ''/root/c.ts'' \<notin> set (provider_unusedFiles
         (snd (highlightUnusedFiles example_parse example_lower (Some (''/root'', example_listing)) None
                (toggleFileStatus ''/root/c.ts'' activate))))
   \<and> ''/root/c.ts'' \<notin> fst ` set (getChildren
         (foldl step (toggleFileStatus ''/root/c.ts'' activate)
            [Scan example_parse example_lower (Some (''/root'', example_listing)) None,
             Toggle ''/root/b.ts'', Delete ''/root/a.ts'', Reset ''/root/b.ts'',
             Scan example_parse example_lower (Some (''/root'', example_listing)) (Some 0)]))
   \<and> provideFileDecoration
         (foldl step (toggleFileStatus ''/root/c.ts'' activate)
            [Scan example_parse example_lower (Some (''/root'', example_listing)) None,
             Toggle ''/root/b.ts'', Delete ''/root/a.ts'', Reset ''/root/b.ts'',
             Scan example_parse example_lower (Some (''/root'', example_listing)) (Some 0)])
         ''/root/c.ts'' \<noteq> Some UnusedFile"
proof -
  let ?s = "toggleFileStatus ''/root/c.ts'' activate"
  let ?events = "[Scan example_parse example_lower (Some (''/root'', example_listing)) None,
             Toggle ''/root/b.ts'', Delete ''/root/a.ts'', Reset ''/root/b.ts'',
             Scan example_parse example_lower (Some (''/root'', example_listing)) (Some 0)]"
  have h1: "get_override (overrides ?s) ''/root/c.ts''"
    by (simp add: toggleFileStatus_def publish_def get_override_def activate_def Let_def)
  have h2: "\<forall>e\<in>set ?events. e \<noteq> Toggle ''/root/c.ts'' \<and> e \<noteq> Reset ''/root/c.ts''"
    by simp
  note t = marked_used_is_never_shown_unused
      [OF h1 h2, where rf = "readFile ''/root'' example_listing"
         and batch = "[''/root/a.ts'', ''/root/b.ts'', ''/root/c.ts'']"
         and workspacePath = "''/root''" and tok = None and parse = example_parse
         and lower = example_lower
         and w = "Some (''/root'', example_listing)" and n = 1]
  note sc = example_scan_with_c_marked
  from t sc h1 show ?thesis by simp
qed

text \<open>
  C10 at a published list that holds the deleted path twice, and at a path
  the list does not hold.
\<close>

theorem onDidDelete_removes_path_witness:
  "''/root/b.ts'' \<in> set (provider_unusedFiles
       (publish [''/root/b.ts'', ''/root/c.ts'', ''/root/b.ts''] activate))
   \<and> provider_unusedFiles (onDidDelete ''/root/b.ts''
       (publish [''/root/b.ts'', ''/root/c.ts'', ''/root/b.ts''] activate)) = [''/root/c.ts'']
   \<and> ''/root/a.ts'' \<notin> set (provider_unusedFiles
       (publish [''/root/b.ts'', ''/root/c.ts'', ''/root/b.ts''] activate))
   \<and> provider_unusedFiles (onDidDelete ''/root/a.ts''
       (publish [''/root/b.ts'', ''/root/c.ts'', ''/root/b.ts''] activate))
       = [''/root/b.ts'', ''/root/c.ts'', ''/root/b.ts'']"
proof -
  have l: "provider_unusedFiles (publish [''/root/b.ts'', ''/root/c.ts'', ''/root/b.ts''] activate)
       = [''/root/b.ts'', ''/root/c.ts'', ''/root/b.ts'']"
    by (simp add: publish_def)
  show ?thesis
    using onDidDelete_removes_path
        [of "''/root/b.ts''" "publish [''/root/b.ts'', ''/root/c.ts'', ''/root/b.ts''] activate"]
      onDidDelete_removes_path
        [of "''/root/a.ts''" "publish [''/root/b.ts'', ''/root/c.ts'', ''/root/b.ts''] activate"]
    by (simp add: l)
qed

end
